theory Spec2Isabelle
  imports Main "HOL-Library.AList" "HOL-Library.Sublist"
begin

section \<open>The word analyzer of \<^verbatim>\<open>src/utils/WordAnalyzer.js\<close>\<close>

text \<open>
  A shallow embedding of the class \<^verbatim>\<open>WordAnalyzer\<close>: every method is a HOL function of
  the same name, and every built-in of the language the methods call
  (\<^verbatim>\<open>toLowerCase\<close>, \<^verbatim>\<open>replace\<close>, \<^verbatim>\<open>trim\<close>, \<^verbatim>\<open>split\<close>, property reads and writes
  on a plain object, \<^verbatim>\<open>Object.entries\<close>, \<^verbatim>\<open>sort\<close>, \<^verbatim>\<open>slice\<close>, \<^verbatim>\<open>+\<close>) is a function
  too, written out below.
\<close>

subsection \<open>Strings and character classes\<close>

text \<open>
  A string is the list of its code units. The model covers the code units
  \<^verbatim>\<open>U+0000\<close> to \<^verbatim>\<open>U+00FF\<close>, one \<^typ>\<open>char\<close> each, and \<^term>\<open>length\<close> is the string's
  \<^verbatim>\<open>length\<close>. In that range \<^verbatim>\<open>toLowerCase\<close> maps \<^verbatim>\<open>A-Z\<close> and the capital letters
  \<^verbatim>\<open>U+00C0\<close> to \<^verbatim>\<open>U+00DE\<close> (the multiplication sign \<^verbatim>\<open>U+00D7\<close> apart) to the code
  unit 32 above, the class \<^verbatim>\<open>\w\<close> is \<^verbatim>\<open>[A-Za-z0-9_]\<close>, \<^verbatim>\<open>\d\<close> is \<^verbatim>\<open>[0-9]\<close>, and
  \<^verbatim>\<open>\s\<close> (the characters \<^verbatim>\<open>trim\<close> strips) is tab, line feed, vertical tab, form feed,
  carriage return, space and the no-break space \<^verbatim>\<open>U+00A0\<close>.
\<close>

definition is_upper_char :: "char \<Rightarrow> bool" where
  "is_upper_char c \<longleftrightarrow>
     (let n = (of_char c :: nat)
      in (65 \<le> n \<and> n \<le> 90) \<or> (192 \<le> n \<and> n \<le> 222 \<and> n \<noteq> 215))"

definition lower_char :: "char \<Rightarrow> char" where
  "lower_char c = (if is_upper_char c then char_of ((of_char c :: nat) + 32) else c)"

definition toLowerCase :: "string \<Rightarrow> string" where
  "toLowerCase s = map lower_char s"

definition is_digit_char :: "char \<Rightarrow> bool" where
  "is_digit_char c \<longleftrightarrow> (let n = (of_char c :: nat) in 48 \<le> n \<and> n \<le> 57)"

definition is_word_char :: "char \<Rightarrow> bool" where
  "is_word_char c \<longleftrightarrow>
     (let n = (of_char c :: nat)
      in (48 \<le> n \<and> n \<le> 57) \<or> (65 \<le> n \<and> n \<le> 90) \<or> n = 95 \<or> (97 \<le> n \<and> n \<le> 122))"

definition is_space_char :: "char \<Rightarrow> bool" where
  "is_space_char c \<longleftrightarrow>
     (let n = (of_char c :: nat) in (9 \<le> n \<and> n \<le> 13) \<or> n = 32 \<or> n = 160)"

text \<open>\<^verbatim>\<open>.replace(/[^\w\s]/g, ' ')\<close>: every character that is neither a word character
  nor white space becomes one space.\<close>

definition replace_punctuation :: "string \<Rightarrow> string" where
  "replace_punctuation s =
     map (\<lambda>c. if is_word_char c \<or> is_space_char c then c else CHR '' '') s"

text \<open>\<^verbatim>\<open>.replace(/\s+/g, ' ')\<close>: every maximal run of white space becomes one space.\<close>

function replace_spaces :: "string \<Rightarrow> string" where
  "replace_spaces [] = []"
| "replace_spaces (c # cs) =
     (if is_space_char c then CHR '' '' # replace_spaces (dropWhile is_space_char cs)
      else c # replace_spaces cs)"
  by pat_completeness auto
termination
  by (relation "measure length") (auto simp: le_imp_less_Suc length_dropWhile_le)

text \<open>\<^verbatim>\<open>.trim()\<close>: white space is stripped from both ends.\<close>

definition trim :: "string \<Rightarrow> string" where
  "trim s = rev (dropWhile is_space_char (rev (dropWhile is_space_char s)))"

text \<open>\<^verbatim>\<open>.split(/\s+/)\<close>: the pieces between the maximal runs of white space. A run at
  the start or at the end of the string leaves an empty piece there, and a string with no
  white space (the empty string too) is its own single piece.\<close>

function split_spaces :: "string \<Rightarrow> string list" where
  "split_spaces s =
     (let piece = takeWhile (\<lambda>c. \<not> is_space_char c) s;
          rest = dropWhile (\<lambda>c. \<not> is_space_char c) s
      in if rest = [] then [piece]
         else piece # split_spaces (dropWhile is_space_char rest))"
  by pat_completeness auto
termination
proof (relation "measure length", goal_cases)
  case 1
  show ?case by simp
next
  case (2 s piece rest)
  then obtain c cs where rest: "rest = c # cs" and c: "is_space_char c"
    by (metis hd_dropWhile list.exhaust_sel)
  have "length (dropWhile is_space_char rest) \<le> length cs"
    using rest c by (simp add: length_dropWhile_le)
  moreover have "length rest \<le> length s"
    using 2 by (simp add: length_dropWhile_le)
  ultimately show ?case using rest by simp
qed

declare split_spaces.simps [simp del]

text \<open>\<^verbatim>\<open>/^\d+$/.test(word)\<close>: the word is not empty and every character is a digit.\<close>

definition is_pure_number :: "string \<Rightarrow> bool" where
  "is_pure_number w \<longleftrightarrow> w \<noteq> [] \<and> list_all is_digit_char w"

subsection \<open>The stop words, \<^verbatim>\<open>cleanText\<close> and \<^verbatim>\<open>extractWords\<close>\<close>

text \<open>The constructor's \<^verbatim>\<open>Set\<close> of stop words, in the order of the source (a word the
  source lists twice is listed twice; membership is all that is read).\<close>

definition stopWords :: "string list" where
  "stopWords =
    [''the'', ''a'', ''an'', ''and'', ''or'', ''but'', ''in'', ''on'', ''at'', ''to'', ''for'', ''of'', ''with'', ''by'',
     ''is'', ''are'', ''was'', ''were'', ''be'', ''been'', ''being'', ''have'', ''has'', ''had'', ''do'', ''does'', ''did'',
     ''will'', ''would'', ''could'', ''should'', ''may'', ''might'', ''must'', ''can'', ''this'', ''that'', ''these'',
     ''those'', ''i'', ''you'', ''he'', ''she'', ''it'', ''we'', ''they'', ''me'', ''him'', ''her'', ''us'', ''them'',
     ''my'', ''your'', ''his'', ''her'', ''its'', ''our'', ''their'', ''from'', ''up'', ''about'', ''into'', ''over'',
     ''after'', ''all'', ''any'', ''both'', ''each'', ''few'', ''more'', ''most'', ''other'', ''some'', ''such'',
     ''no'', ''nor'', ''not'', ''only'', ''own'', ''same'', ''so'', ''than'', ''too'', ''very'', ''just'', ''now'',
     ''here'', ''there'', ''when'', ''where'', ''why'', ''how'', ''what'', ''which'', ''who'', ''whom'', ''whose'',
     ''if'', ''because'', ''as'', ''until'', ''while'', ''through'', ''during'', ''before'', ''after'', ''above'',
     ''below'', ''between'', ''among'', ''through'', ''during'', ''before'', ''after'', ''above'', ''below'']"

text \<open>\<^verbatim>\<open>this.stopWords.has(word)\<close>.\<close>

definition is_stop_word :: "string \<Rightarrow> bool" where
  "is_stop_word w \<longleftrightarrow> List.member stopWords w"

text \<open>The argument of \<^verbatim>\<open>cleanText\<close> is a string or missing (\<^verbatim>\<open>undefined\<close>, \<^verbatim>\<open>null\<close>):
  \<^verbatim>\<open>!text\<close> holds of a missing text and of the empty string.\<close>

definition cleanText :: "string option \<Rightarrow> string" where
  "cleanText text_arg =
     (case text_arg of
        None \<Rightarrow> []
      | Some t \<Rightarrow>
          if t = [] then []
          else trim (replace_spaces (replace_punctuation (toLowerCase t))))"

definition extractWords :: "string option \<Rightarrow> string list" where
  "extractWords text_arg =
     (let cleanedText = cleanText text_arg
      in if cleanedText = [] then []
         else filter (\<lambda>w. 0 < length (trim w))
               (filter (\<lambda>w. \<not> is_pure_number w)
                 (filter (\<lambda>w. \<not> is_stop_word w)
                   (filter (\<lambda>w. 3 \<le> length w)
                     (split_spaces cleanedText)))))"

subsection \<open>Values and plain objects\<close>

text \<open>
  A value stored in a frequency table is a number or a string. The numbers are the
  integers (counts stay far below \<^verbatim>\<open>2^53\<close>, where a number is its exact integer).
  A string arises as a count in one way only: \<^verbatim>\<open>+\<close> with the text of an inherited
  member of \<^verbatim>\<open>Object.prototype\<close> on its left, see \<open>get_or_zero\<close> below.
\<close>

datatype jsval = Num int | Str string

text \<open>\<^verbatim>\<open>Number.prototype.toString\<close> on an integer: its decimal digits, with a minus
  sign when it is negative.\<close>

function show_nat :: "nat \<Rightarrow> string" where
  "show_nat n =
     (if n < 10 then [char_of (48 + n)]
      else show_nat (n div 10) @ [char_of (48 + n mod 10)])"
  by pat_completeness auto
termination
  by (relation "measure id") auto

definition show_int :: "int \<Rightarrow> string" where
  "show_int i = (if i < 0 then CHR ''-'' # show_nat (nat (- i)) else show_nat (nat i))"

fun to_string :: "jsval \<Rightarrow> string" where
  "to_string (Num i) = show_int i"
| "to_string (Str s) = s"

text \<open>The operator \<^verbatim>\<open>+\<close>: addition of two numbers, and concatenation of the operands'
  strings as soon as one operand is a string.\<close>

fun js_plus :: "jsval \<Rightarrow> jsval \<Rightarrow> jsval" where
  "js_plus (Num a) (Num b) = Num (a + b)"
| "js_plus a b = Str (to_string a @ to_string b)"

text \<open>\<^verbatim>\<open>ToNumber\<close>, as the subtraction in the comparator of \<^verbatim>\<open>getTopWords\<close> applies it;
  \<^term>\<open>None\<close> is \<^verbatim>\<open>NaN\<close>. The strings that arise as counts contain the text of a
  function or of an object, which no numeric literal does, so they convert to
  \<^verbatim>\<open>NaN\<close>.\<close>

fun to_number :: "jsval \<Rightarrow> int option" where
  "to_number (Num i) = Some i"
| "to_number (Str s) = None"

text \<open>
  A plain object (\<^verbatim>\<open>{}\<close> and what assignments make of it) is the list of its own
  properties in the order \<^verbatim>\<open>Object.entries\<close> and \<^verbatim>\<open>Object.keys\<close> enumerate them: the
  keys that are array indices first, in ascending numeric order, then the other keys in
  the order of their creation. An array index is the canonical decimal numeral of an
  integer from 0 to \<^verbatim>\<open>2^32 - 2\<close>.
\<close>

type_synonym table = "(string \<times> jsval) list"

definition digits_value :: "string \<Rightarrow> int" where
  "digits_value k = foldl (\<lambda>a c. 10 * a + ((of_char c :: int) - 48)) 0 k"

definition is_array_index :: "string \<Rightarrow> bool" where
  "is_array_index k \<longleftrightarrow>
     is_pure_number k \<and> (k = ''0'' \<or> hd k \<noteq> CHR ''0'') \<and> digits_value k < 4294967295"

text \<open>
  The object's prototype is \<^verbatim>\<open>Object.prototype\<close>, and a read of a key the object
  does not own finds the member of that name there. Each member is a function, but for
  the accessor \<^verbatim>\<open>__proto__\<close>, whose getter returns \<^verbatim>\<open>Object.prototype\<close> itself. The
  value read is an object, so it is truthy, and \<^verbatim>\<open>+\<close> converts it to the string given
  here.
\<close>

definition native_function_text :: "string \<Rightarrow> string" where
  "native_function_text name = ''function '' @ name @ ''() { [native code] }''"

definition prototype_text :: "string \<Rightarrow> string option" where
  "prototype_text k =
     (if k = ''__proto__'' then Some ''[object Object]''
      else if k = ''constructor'' then Some (native_function_text ''Object'')
      else if List.member
           [''hasOwnProperty'', ''isPrototypeOf'', ''propertyIsEnumerable'', ''toLocaleString'',
            ''toString'', ''valueOf'', ''__defineGetter__'', ''__defineSetter__'',
            ''__lookupGetter__'', ''__lookupSetter__''] k
      then Some (native_function_text k)
      else None)"

text \<open>\<^verbatim>\<open>obj[key] || 0\<close>: the own property when there is one (an empty string, being
  falsy, gives 0), else the inherited member, else (\<^verbatim>\<open>undefined\<close>) 0.\<close>

definition get_or_zero :: "table \<Rightarrow> string \<Rightarrow> jsval" where
  "get_or_zero obj k =
     (case map_of obj k of
        Some (Num i) \<Rightarrow> Num i
      | Some (Str s) \<Rightarrow> if s = [] then Num 0 else Str s
      | None \<Rightarrow> (case prototype_text k of Some p \<Rightarrow> Str p | None \<Rightarrow> Num 0))"

text \<open>A new array-index key goes in front of the first key that is not an array index
  or is a greater one.\<close>

fun insert_index :: "string \<Rightarrow> jsval \<Rightarrow> table \<Rightarrow> table" where
  "insert_index k v [] = [(k, v)]"
| "insert_index k v ((k', v') # obj) =
     (if is_array_index k' \<and> digits_value k' < digits_value k
      then (k', v') # insert_index k v obj
      else (k, v) # (k', v') # obj)"

text \<open>\<^verbatim>\<open>obj[key] = value\<close>, for a number or a string as the value: an own property
  keeps its place and takes the value; the key \<^verbatim>\<open>__proto__\<close>, when not owned, reaches the
  setter of \<^verbatim>\<open>Object.prototype\<close>, which ignores a value that is neither an object nor
  \<^verbatim>\<open>null\<close>; any other key becomes a new own property.\<close>

definition set_property :: "table \<Rightarrow> string \<Rightarrow> jsval \<Rightarrow> table" where
  "set_property obj k v =
     (if k \<in> fst ` set obj then AList.update k v obj
      else if k = ''__proto__'' then obj
      else if is_array_index k then insert_index k v obj
      else obj @ [(k, v)])"

subsection \<open>\<^verbatim>\<open>countWordFrequency\<close>\<close>

definition countWordFrequency :: "string list \<Rightarrow> table" where
  "countWordFrequency words =
     foldl (\<lambda>freq w. set_property freq w (js_plus (get_or_zero freq w) (Num 1))) [] words"

subsection \<open>\<^verbatim>\<open>getTopWords\<close>\<close>

record RankedWord =
  word :: string
  count :: jsval

text \<open>The comparator \<^verbatim>\<open>(a, b) => b.count - a.count\<close>; \<^term>\<open>None\<close> is \<^verbatim>\<open>NaN\<close>.\<close>

definition compareFn :: "RankedWord \<Rightarrow> RankedWord \<Rightarrow> int option" where
  "compareFn a b =
     (case (to_number (count b), to_number (count a)) of
        (Some y, Some x) \<Rightarrow> Some (y - x)
      | _ \<Rightarrow> None)"

text \<open>
  \<^verbatim>\<open>Array.prototype.sort\<close> is stable: \<open>a\<close> comes before \<open>b\<close> when the comparator is
  negative on \<open>(a, b)\<close>, and two elements keep their order when it is zero. When every
  count is a number the comparator is a consistent one, the language fixes the result,
  and any stable sort computes it; the model is the insertion sort: each element, from
  the last to the first, goes into the sorted rest behind the elements that come before
  it. With a string among the counts the comparator is \<^verbatim>\<open>NaN\<close> on some pairs and not
  consistent; the language then leaves the order to the engine, whose merge sort the
  insertion sort does not follow. So \<open>js_sort\<close> is the sort of the code on tables of
  numbers only, and every statement below about the order of a ranking assumes one.
\<close>

definition comes_before :: "RankedWord \<Rightarrow> RankedWord \<Rightarrow> bool" where
  "comes_before a b \<longleftrightarrow> (case compareFn a b of Some d \<Rightarrow> d < 0 | None \<Rightarrow> False)"

fun insert_ranked :: "RankedWord \<Rightarrow> RankedWord list \<Rightarrow> RankedWord list" where
  "insert_ranked a [] = [a]"
| "insert_ranked a (b # bs) = (if comes_before b a then b # insert_ranked a bs else a # b # bs)"

definition js_sort :: "RankedWord list \<Rightarrow> RankedWord list" where
  "js_sort xs = foldr insert_ranked xs []"

text \<open>\<^verbatim>\<open>.slice(0, n)\<close>: the first \<open>n\<close> elements, and for a negative \<open>n\<close> all but the
  last \<open>- n\<close>.\<close>

definition slice_from_start :: "'a list \<Rightarrow> int \<Rightarrow> 'a list" where
  "slice_from_start xs n =
     (let len = int (length xs);
          final = (if n < 0 then max (len + n) 0 else min n len)
      in take (nat final) xs)"

text \<open>\<^verbatim>\<open>Object.entries(frequency).map(([word, count]) => ({ word, count }))\<close>.\<close>

definition entries :: "table \<Rightarrow> RankedWord list" where
  "entries freq = map (\<lambda>(w, c). \<lparr>word = w, count = c\<rparr>) freq"

definition getTopWords :: "table \<Rightarrow> int \<Rightarrow> RankedWord list" where
  "getTopWords freq n = slice_from_start (js_sort (entries freq)) n"

subsection \<open>\<^verbatim>\<open>analyzeText\<close>\<close>

record AnalysisResult =
  totalWords :: nat
  uniqueWords :: nat
  frequency :: table
  topWords :: "RankedWord list"

text \<open>\<^verbatim>\<open>getTopWords\<close> is called with one argument, so its second takes the default, 5.\<close>

definition analyzeText :: "string option \<Rightarrow> AnalysisResult" where
  "analyzeText text_arg =
     (let words = extractWords text_arg;
          freq = countWordFrequency words;
          ranked = getTopWords freq 5
      in \<lparr>totalWords = length words,
          uniqueWords = length (map fst freq),
          frequency = freq,
          topWords = ranked\<rparr>)"

subsection \<open>\<^verbatim>\<open>combineFrequencies\<close> and \<^verbatim>\<open>analyzeMultipleArticles\<close>\<close>

definition combineFrequencies :: "table list \<Rightarrow> table" where
  "combineFrequencies frequencyObjects =
     foldl (\<lambda>combined freq.
              foldl (\<lambda>combined (w, c). set_property combined w (js_plus (get_or_zero combined w) c))
                combined freq)
       [] frequencyObjects"

text \<open>An article, as the test of \<^verbatim>\<open>src/tests/blog.spec.js\<close> builds it; a field the
  object does not have is \<^term>\<open>None\<close>.\<close>

record Document =
  title :: "string option"
  url :: "string option"
  "text" :: "string option"
  author :: "string option"
  date :: "string option"
  index :: "nat option"
  error :: "string option"
  analysis :: "AnalysisResult option"

record BatchAnalysisResult =
  articles :: "Document list"
  combinedFrequency :: table
  topWords :: "RankedWord list"
  totalArticles :: nat

text \<open>\<^verbatim>\<open>article.text || ''\<close>.\<close>

definition text_or_empty :: "Document \<Rightarrow> string" where
  "text_or_empty article = (case text article of None \<Rightarrow> [] | Some t \<Rightarrow> t)"

text \<open>The body of the loop: the article takes its analysis (the assignment to
  \<^verbatim>\<open>article.analysis\<close>), and the two arrays grow by one element each.\<close>

definition analyze_article ::
  "Document list \<times> table list \<Rightarrow> Document \<Rightarrow> Document list \<times> table list" where
  "analyze_article state article =
     (let (articleAnalyses, allFrequencies) = state;
          result = analyzeText (Some (text_or_empty article));
          article = article\<lparr>analysis := Some result\<rparr>
      in (articleAnalyses @ [article], allFrequencies @ [frequency result]))"

definition analyzeMultipleArticles :: "Document list \<Rightarrow> int \<Rightarrow> BatchAnalysisResult" where
  "analyzeMultipleArticles docs topCount =
     (let (articleAnalyses, allFrequencies) = foldl analyze_article ([], []) docs;
          combined = combineFrequencies allFrequencies;
          ranked = getTopWords combined topCount
      in \<lparr>articles = articleAnalyses,
          combinedFrequency = combined,
          topWords = ranked,
          totalArticles = length docs\<rparr>)"

subsection \<open>\<^verbatim>\<open>generateFileContent\<close>\<close>

text \<open>\<^verbatim>\<open>article.title || 'Unknown Title'\<close> and its like: the default stands in for a
  missing string and for the empty one.\<close>

definition or_default :: "string option \<Rightarrow> string \<Rightarrow> string" where
  "or_default field fallback =
     (case field of None \<Rightarrow> fallback | Some s \<Rightarrow> if s = [] then fallback else s)"

text \<open>\<^verbatim>\<open>article.analysis?.totalWords || 0\<close>.\<close>

definition words_or_zero :: "Document \<Rightarrow> nat" where
  "words_or_zero article = (case analysis article of None \<Rightarrow> 0 | Some a \<Rightarrow> totalWords a)"

text \<open>The two callbacks of \<^verbatim>\<open>forEach\<close>, each taking the content so far, the index
  and the element.\<close>

definition article_lines :: "string \<Rightarrow> nat \<times> Document \<Rightarrow> string" where
  "article_lines content entry =
     (let (i, article) = entry;
          content = content @ show_nat (i + 1) @ ''. '' @ or_default (title article) ''Unknown Title''
                      @ ''\<newline>'';
          content = content @ ''   URL: '' @ or_default (url article) ''Unknown URL'' @ ''\<newline>'';
          content = content @ ''   Words: '' @ show_nat (words_or_zero article)
                      @ ''\<newline>\<newline>''
      in content)"

definition word_line :: "string \<Rightarrow> nat \<times> RankedWord \<Rightarrow> string" where
  "word_line content entry =
     (let (i, item) = entry
      in content @ show_nat (i + 1) @ ''. '' @ [CHR 0x22] @ word item @ [CHR 0x22] @ '' - ''
           @ to_string (count item) @ '' occurrences\<newline>'')"

text \<open>The clock is an argument: \<open>now\<close> is the string \<^verbatim>\<open>new Date().toISOString()\<close>
  returns at the call.\<close>

definition generateFileContent :: "string \<Rightarrow> RankedWord list \<Rightarrow> BatchAnalysisResult \<Rightarrow> string" where
  "generateFileContent now ranked batch =
     (let content = ''Word Frequency Analysis Results\<newline>'';
          content = content @ ''===============================\<newline>\<newline>'';
          content = content @ ''Analysis Date: '' @ now @ ''\<newline>'';
          content = content @ ''Articles Analyzed: '' @ show_nat (length (articles batch))
                      @ ''\<newline>\<newline>'';
          content = content @ ''Articles:\<newline>'';
          content = foldl article_lines content (enumerate 0 (articles batch));
          content = content @ ''Top 5 Most Repeated Words Across All Articles:\<newline>'';
          content = content @ ''==============================================\<newline>'';
          content = foldl word_line content (enumerate 0 ranked);
          content = content @ ''\<newline>\<newline>Generated by Haci Arpaci\<newline>''
      in content)"

subsection \<open>How a call completes\<close>

text \<open>
  A call returns a value or throws. \<^verbatim>\<open>InvalidArgument\<close> is the error the specification
  names. No method of the class has a \<^verbatim>\<open>throw\<close> statement or checks an argument, and on
  arguments of the types above no built-in it calls throws, so each call completes by
  returning what the method computes.
\<close>

datatype error = InvalidArgument

datatype 'a completion = Returns 'a | Throws error

definition call_getTopWords :: "table \<Rightarrow> int \<Rightarrow> RankedWord list completion" where
  "call_getTopWords freq n = Returns (getTopWords freq n)"

definition call_analyzeText :: "string option \<Rightarrow> AnalysisResult completion" where
  "call_analyzeText text_arg = Returns (analyzeText text_arg)"

definition call_analyzeMultipleArticles ::
  "Document list \<Rightarrow> int \<Rightarrow> BatchAnalysisResult completion" where
  "call_analyzeMultipleArticles docs topCount = Returns (analyzeMultipleArticles docs topCount)"

subsection \<open>The articles of the test\<close>

text \<open>The two ways the test of \<^verbatim>\<open>src/tests/blog.spec.js\<close> builds an article, for the
  loop index \<open>i\<close>: from what the page gave, and, in the \<^verbatim>\<open>catch\<close> block, from the
  message of the error.\<close>

definition extracted_article ::
  "nat \<Rightarrow> string \<Rightarrow> string \<Rightarrow> string \<Rightarrow> string \<Rightarrow> string \<Rightarrow> Document" where
  "extracted_article i title_arg articleUrl text_arg author_arg date_arg =
     \<lparr>title = Some title_arg, url = Some articleUrl, text = Some text_arg,
      author = Some author_arg, date = Some date_arg, index = Some (i + 1),
      error = None, analysis = None\<rparr>"

definition failed_article :: "nat \<Rightarrow> string \<Rightarrow> string \<Rightarrow> Document" where
  "failed_article i articleUrl message =
     \<lparr>title = Some (''Article '' @ show_nat (i + 1) @ '' (Error)''), url = Some articleUrl,
      text = Some [], author = Some ''Unknown'', date = Some ''Unknown'', index = Some (i + 1),
      error = Some message, analysis = None\<rparr>"

subsection \<open>Notions the statements use\<close>

text \<open>The article as the loop of \<^verbatim>\<open>analyzeMultipleArticles\<close> leaves it.\<close>

definition attach_analysis :: "Document \<Rightarrow> Document" where
  "attach_analysis article =
     article\<lparr>analysis := Some (analyzeText (Some (text_or_empty article)))\<rparr>"

text \<open>The number a numeric count stands for.\<close>

definition number_of :: "RankedWord \<Rightarrow> int" where
  "number_of r = (case count r of Num i \<Rightarrow> i | Str s \<Rightarrow> 0)"

text \<open>A table of numbers, the count a table of numbers gives a word (0 for a word it
  does not hold), and the sum of its counts.\<close>

definition numeric :: "table \<Rightarrow> bool" where
  "numeric freq \<longleftrightarrow> list_all (\<lambda>e. case snd e of Num i \<Rightarrow> True | Str s \<Rightarrow> False) freq"

definition count_in :: "table \<Rightarrow> string \<Rightarrow> int" where
  "count_in freq w = (case map_of freq w of Some (Num i) \<Rightarrow> i | _ \<Rightarrow> 0)"

definition total_count :: "table \<Rightarrow> int" where
  "total_count freq = sum_list (map (\<lambda>e. case snd e of Num i \<Rightarrow> i | Str s \<Rightarrow> 0) freq)"

text \<open>A value that is a number, or a string with an opening bracket in it: no numeric
  literal has one, so \<^verbatim>\<open>ToNumber\<close> of such a string is \<^verbatim>\<open>NaN\<close>.\<close>

definition not_a_numeral :: "jsval \<Rightarrow> bool" where
  "not_a_numeral v \<longleftrightarrow> (case v of Num i \<Rightarrow> True | Str s \<Rightarrow> CHR ''['' \<in> set s)"

section \<open>Properties\<close>

subsection \<open>Tables of numbers\<close>

lemma numeric_value: "numeric freq \<Longrightarrow> (k, v) \<in> set freq \<Longrightarrow> \<exists>i. v = Num i"
  by (cases v) (auto simp: numeric_def list_all_iff)

lemma numericI: "(\<And>k v. (k, v) \<in> set freq \<Longrightarrow> \<exists>i. v = Num i) \<Longrightarrow> numeric freq"
  unfolding numeric_def list_all_iff
proof
  fix e
  assume a: "\<And>k v. (k, v) \<in> set freq \<Longrightarrow> \<exists>i. v = Num i" and e: "e \<in> set freq"
  obtain k v where "e = (k, v)" by (cases e)
  with a e show "case snd e of Num i \<Rightarrow> True | Str s \<Rightarrow> False" by fastforce
qed

subsection \<open>The sort and the slice\<close>

lemma js_sort_Nil: "js_sort [] = []"
  by (simp add: js_sort_def)

lemma js_sort_Cons: "js_sort (a # xs) = insert_ranked a (js_sort xs)"
  by (simp add: js_sort_def)

lemma length_insert_ranked: "length (insert_ranked a bs) = Suc (length bs)"
  by (induction bs) auto

lemma length_js_sort: "length (js_sort xs) = length xs"
  by (induction xs) (simp_all add: js_sort_Nil js_sort_Cons length_insert_ranked)

lemma length_entries: "length (entries freq) = length freq"
  by (simp add: entries_def)

lemma set_insert_ranked: "set (insert_ranked a bs) = insert a (set bs)"
  by (induction bs) auto

lemma set_js_sort: "set (js_sort xs) = set xs"
  by (induction xs) (simp_all add: js_sort_Nil js_sort_Cons set_insert_ranked)

lemma distinct_insert_ranked:
  "distinct (map word (insert_ranked a bs)) \<longleftrightarrow> word a \<notin> word ` set bs \<and> distinct (map word bs)"
  by (induction bs) (auto simp: set_insert_ranked)

lemma distinct_js_sort: "distinct (map word (js_sort xs)) \<longleftrightarrow> distinct (map word xs)"
  by (induction xs) (simp_all add: js_sort_Nil js_sort_Cons distinct_insert_ranked set_js_sort)

text \<open>Stability of the insertion sort: the comparator never puts one of two elements
  with the same count before the other, so the elements of each count keep their
  order.\<close>

lemma comes_before_count: "comes_before b a \<Longrightarrow> count a \<noteq> count b"
  by (auto simp: comes_before_def compareFn_def split: option.splits)

lemma filter_insert_ranked:
  "filter (\<lambda>r. count r = c) (insert_ranked a bs)
     = (if count a = c then a # filter (\<lambda>r. count r = c) bs else filter (\<lambda>r. count r = c) bs)"
  by (induction bs) (auto dest: comes_before_count)

lemma filter_js_sort: "filter (\<lambda>r. count r = c) (js_sort xs) = filter (\<lambda>r. count r = c) xs"
  by (induction xs) (simp_all add: js_sort_Nil js_sort_Cons filter_insert_ranked)

text \<open>Order: on numbers the comparator is the descending order of the counts.\<close>

lemma comes_before_numbers:
  "count a = Num i \<Longrightarrow> count b = Num j \<Longrightarrow> comes_before b a \<longleftrightarrow> i < j"
  by (simp add: comes_before_def compareFn_def)

lemma sorted_insert_ranked:
  assumes "\<forall>r \<in> set (a # bs). \<exists>i. count r = Num i"
    and "sorted_wrt (\<lambda>x y. number_of y \<le> number_of x) bs"
  shows "sorted_wrt (\<lambda>x y. number_of y \<le> number_of x) (insert_ranked a bs)"
  using assms
proof (induction bs)
  case Nil
  then show ?case by simp
next
  case (Cons b bs)
  from Cons.prems(1) obtain i j where ij: "count a = Num i" "count b = Num j"
    by auto
  then have cb: "comes_before b a \<longleftrightarrow> i < j"
    by (rule comes_before_numbers)
  have n: "number_of a = i" "number_of b = j"
    using ij by (simp_all add: number_of_def)
  show ?case
  proof (cases "i < j")
    case True
    have "sorted_wrt (\<lambda>x y. number_of y \<le> number_of x) (insert_ranked a bs)"
      using Cons by auto
    with True cb n Cons.prems(2) show ?thesis
      by (auto simp: set_insert_ranked)
  next
    case False
    with cb n Cons.prems(2) show ?thesis
      by auto
  qed
qed

lemma sorted_js_sort:
  "\<forall>r \<in> set xs. \<exists>i. count r = Num i \<Longrightarrow>
     sorted_wrt (\<lambda>x y. number_of y \<le> number_of x) (js_sort xs)"
proof (induction xs)
  case Nil
  then show ?case by (simp add: js_sort_def)
next
  case (Cons a xs)
  then have "sorted_wrt (\<lambda>x y. number_of y \<le> number_of x) (js_sort xs)"
    by simp
  moreover have "\<forall>r \<in> set (a # js_sort xs). \<exists>i. count r = Num i"
    using Cons.prems by (simp add: set_js_sort)
  ultimately have "sorted_wrt (\<lambda>x y. number_of y \<le> number_of x) (insert_ranked a (js_sort xs))"
    using sorted_insert_ranked by blast
  then show ?case by (simp add: js_sort_def)
qed

text \<open>
  C4: for every frequency table (its words distinct, its counts numbers) and every
  \<open>n \<ge> 0\<close>, the result of \<^verbatim>\<open>getTopWords\<close> is sorted by descending count, its length is
  the minimum of \<open>n\<close> and the number of distinct words of the table, every pair in it
  is an entry of the table (and no word comes twice), and the sort is stable: for each
  count, the returned words of that count are the first ones of that count in the
  table's enumeration, in that order. The result is the top of the table: no entry left
  out has a greater count than an entry returned. On the empty table with \<open>n = 5\<close> the
  result is empty.
\<close>

theorem getTopWords_ranking:
  assumes "0 \<le> n" and "distinct (map fst freq)" and "numeric freq"
  shows "(\<exists>ks. map count (getTopWords freq n) = map Num ks \<and> sorted_wrt (\<lambda>x y. y \<le> x) ks)
     \<and> length (getTopWords freq n) = min (nat n) (card (fst ` set freq))
     \<and> (\<forall>r \<in> set (getTopWords freq n). (word r, count r) \<in> set freq)
     \<and> distinct (map word (getTopWords freq n))
     \<and> (\<forall>c. prefix (filter (\<lambda>r. count r = c) (getTopWords freq n))
                     (filter (\<lambda>r. count r = c) (entries freq)))
     \<and> (\<forall>r \<in> set (getTopWords freq n). \<forall>e \<in> set (entries freq) - set (getTopWords freq n).
            number_of e \<le> number_of r)
     \<and> getTopWords [] 5 = []"
proof -
  let ?full = "js_sort (entries freq)"
  have top: "getTopWords freq n = take (nat n) ?full"
    using assms(1)
    by (cases "n \<le> int (length freq)")
       (simp_all add: getTopWords_def slice_from_start_def length_js_sort length_entries min_def)
  have nums: "\<forall>r \<in> set (entries freq). \<exists>i. count r = Num i"
    using numeric_value [OF assms(3)] by (fastforce simp: entries_def)
  then have sorted_full: "sorted_wrt (\<lambda>x y. number_of y \<le> number_of x) ?full"
    by (rule sorted_js_sort)
  have "\<forall>r \<in> set (take (nat n) ?full). \<exists>i. count r = Num i"
    using nums by (auto simp: set_js_sort dest: in_set_takeD)
  then have counts: "map count (take (nat n) ?full) = map Num (map number_of (take (nat n) ?full))"
    by (auto simp: number_of_def)
  have "sorted_wrt (\<lambda>x y. number_of y \<le> number_of x) (take (nat n) ?full)"
    using sorted_full by (rule sorted_wrt_take)
  then have "sorted_wrt (\<lambda>x y. y \<le> x) (map number_of (take (nat n) ?full))"
    by (simp add: sorted_wrt_map)
  with counts have c1: "\<exists>ks. map count (getTopWords freq n) = map Num ks \<and> sorted_wrt (\<lambda>x y. y \<le> x) ks"
    unfolding top by blast
  have "card (fst ` set freq) = length freq"
    using assms(2) by (metis distinct_card length_map set_map)
  then have c2: "length (getTopWords freq n) = min (nat n) (card (fst ` set freq))"
    by (simp add: top length_js_sort length_entries min.commute)
  have c3: "\<forall>r \<in> set (getTopWords freq n). (word r, count r) \<in> set freq"
    unfolding top by (auto simp: set_js_sort entries_def dest!: in_set_takeD)
  have "map word (entries freq) = map fst freq"
    by (simp add: entries_def case_prod_beta)
  then have "distinct (map word ?full)"
    using assms(2) by (simp add: distinct_js_sort)
  then have c4: "distinct (map word (getTopWords freq n))"
    unfolding top by (simp add: take_map [symmetric] distinct_take)
  have c5: "prefix (filter (\<lambda>r. count r = c) (getTopWords freq n))
                     (filter (\<lambda>r. count r = c) (entries freq))" for c
  proof -
    have "prefix (filter (\<lambda>r. count r = c) (take (nat n) ?full)) (filter (\<lambda>r. count r = c) ?full)"
      by (metis append_take_drop_id filter_append prefixI)
    then show ?thesis
      by (simp add: top filter_js_sort)
  qed
  have c6: "number_of e \<le> number_of r"
    if r: "r \<in> set (getTopWords freq n)" and e: "e \<in> set (entries freq) - set (getTopWords freq n)"
    for r e
  proof -
    have "sorted_wrt (\<lambda>x y. number_of y \<le> number_of x) (take (nat n) ?full @ drop (nat n) ?full)"
      using sorted_full by simp
    then have below: "\<forall>x \<in> set (take (nat n) ?full). \<forall>y \<in> set (drop (nat n) ?full).
        number_of y \<le> number_of x"
      unfolding sorted_wrt_append by blast
    have "set ?full = set (take (nat n) ?full) \<union> set (drop (nat n) ?full)"
      by (metis append_take_drop_id set_append)
    with e have "e \<in> set (drop (nat n) ?full)"
      unfolding top by (auto simp: set_js_sort)
    with r below show ?thesis
      unfolding top by blast
  qed
  have c7: "getTopWords [] 5 = []"
    by (simp add: getTopWords_def entries_def js_sort_def slice_from_start_def)
  from c1 c2 c3 c4 c5 c6 c7 show ?thesis by blast
qed

theorem getTopWords_ranking_witness:
  "(0::int) \<le> 2
   \<and> distinct (map fst [(''a'', Num 1), (''b'', Num 3), (''c'', Num 1), (''d'', Num 3), (''e'', Num 2)])
   \<and> numeric [(''a'', Num 1), (''b'', Num 3), (''c'', Num 1), (''d'', Num 3), (''e'', Num 2)]
   \<and> getTopWords [(''a'', Num 1), (''b'', Num 3), (''c'', Num 1), (''d'', Num 3), (''e'', Num 2)] 2
        = [\<lparr>word = ''b'', count = Num 3\<rparr>, \<lparr>word = ''d'', count = Num 3\<rparr>]
   \<and> (\<exists>ks. map count (getTopWords
              [(''a'', Num 1), (''b'', Num 3), (''c'', Num 1), (''d'', Num 3), (''e'', Num 2)] 2)
            = map Num ks \<and> sorted_wrt (\<lambda>x y. y \<le> x) ks)
   \<and> length (getTopWords [(''a'', Num 1), (''b'', Num 3), (''c'', Num 1), (''d'', Num 3), (''e'', Num 2)] 2)
        = min (nat 2) (card (fst ` set [(''a'', Num 1), (''b'', Num 3), (''c'', Num 1), (''d'', Num 3), (''e'', Num 2)]))
   \<and> prefix (filter (\<lambda>r. count r = Num 3)
               (getTopWords [(''a'', Num 1), (''b'', Num 3), (''c'', Num 1), (''d'', Num 3), (''e'', Num 2)] 2))
        (filter (\<lambda>r. count r = Num 3)
               (entries [(''a'', Num 1), (''b'', Num 3), (''c'', Num 1), (''d'', Num 3), (''e'', Num 2)]))
   \<and> number_of \<lparr>word = ''e'', count = Num 2\<rparr> \<le> number_of \<lparr>word = ''d'', count = Num 3\<rparr>"
proof -
  let ?t = "[(''a'', Num 1), (''b'', Num 3), (''c'', Num 1), (''d'', Num 3), (''e'', Num 2)]"
  have d: "distinct (map fst ?t)" by simp
  have nums: "numeric ?t" by (simp add: numeric_def)
  have v: "getTopWords ?t 2 = [\<lparr>word = ''b'', count = Num 3\<rparr>, \<lparr>word = ''d'', count = Num 3\<rparr>]"
    by code_simp
  have z: "(0::int) \<le> 2" by simp
  note ranking = getTopWords_ranking [of 2 ?t, OF z d nums]
  have o: "\<exists>ks. map count (getTopWords ?t 2) = map Num ks \<and> sorted_wrt (\<lambda>x y. y \<le> x) ks"
    using ranking by blast
  have l: "length (getTopWords ?t 2) = min (nat 2) (card (fst ` set ?t))"
    using ranking by blast
  have p: "prefix (filter (\<lambda>r. count r = Num 3) (getTopWords ?t 2))
             (filter (\<lambda>r. count r = Num 3) (entries ?t))"
    using ranking by blast
  have "\<lparr>word = ''d'', count = Num 3\<rparr> \<in> set (getTopWords ?t 2)"
    unfolding v by simp
  moreover have "\<lparr>word = ''e'', count = Num 2\<rparr> \<in> set (entries ?t) - set (getTopWords ?t 2)"
    unfolding v by (simp add: entries_def)
  ultimately have q: "number_of \<lparr>word = ''e'', count = Num 2\<rparr> \<le> number_of \<lparr>word = ''d'', count = Num 3\<rparr>"
    using ranking by blast
  from z d nums v o l p q show ?thesis
    by blast
qed

subsection \<open>The count argument is not checked\<close>

text \<open>
  C1, as the specification states it: \<^verbatim>\<open>getTopWords(freq, N)\<close> with \<open>N < 0\<close> and
  \<^verbatim>\<open>analyzeMultipleArticles(documents, topCount)\<close> with \<open>topCount < 0\<close> raise
  \<^verbatim>\<open>InvalidArgument\<close>. The code has no such check: at \<open>N = -1\<close> both calls return, and
  \<^verbatim>\<open>getTopWords\<close> returns the ranking without its last entry.
\<close>

theorem negative_count_counterexample:
  "call_getTopWords [(''a'', Num 2), (''b'', Num 1)] (- 1) = Returns [\<lparr>word = ''a'', count = Num 2\<rparr>]
   \<and> call_getTopWords [(''a'', Num 2), (''b'', Num 1)] (- 1) \<noteq> Throws InvalidArgument
   \<and> call_analyzeMultipleArticles [] (- 1)
      = Returns \<lparr>articles = [], combinedFrequency = [], topWords = [], totalArticles = 0\<rparr>
   \<and> call_analyzeMultipleArticles [] (- 1) \<noteq> Throws InvalidArgument"
  by (simp add: call_getTopWords_def call_analyzeMultipleArticles_def analyzeMultipleArticles_def
      getTopWords_def combineFrequencies_def
      js_sort_def entries_def comes_before_def compareFn_def slice_from_start_def)

text \<open>
  C1, amended: for every table, every batch and every integer \<open>n\<close>, negative or not, both
  calls return and neither raises. \<^verbatim>\<open>getTopWords\<close> returns \<^verbatim>\<open>slice(0, n)\<close> of the ranking:
  its first \<open>n\<close> entries when \<open>0 \<le> n\<close>, and all but its last \<open>- n\<close> entries when \<open>n < 0\<close>.
\<close>

theorem no_argument_check:
  "call_getTopWords freq n = Returns (slice_from_start (js_sort (entries freq)) n)
   \<and> call_analyzeMultipleArticles docs n = Returns (analyzeMultipleArticles docs n)
   \<and> (n < 0 \<longrightarrow> getTopWords freq n = take (length freq - nat (- n)) (js_sort (entries freq)))
   \<and> (0 \<le> n \<longrightarrow> getTopWords freq n = take (nat n) (js_sort (entries freq)))"
proof -
  have len: "length (js_sort (entries freq)) = length freq"
    by (simp add: length_js_sort length_entries)
  have neg: "n < 0 \<Longrightarrow> nat (max (int (length freq) + n) 0) = length freq - nat (- n)"
    by linarith
  have pos: "0 \<le> n \<Longrightarrow> take (nat (min n (int (length freq)))) (js_sort (entries freq))
      = take (nat n) (js_sort (entries freq))"
    using len by (cases "n \<le> int (length freq)") (simp_all add: min_def)
  show ?thesis
    using neg pos
    by (simp add: call_getTopWords_def call_analyzeMultipleArticles_def getTopWords_def
        slice_from_start_def len Let_def)
qed

theorem no_argument_check_witness:
  "(- 1 :: int) < 0
   \<and> call_getTopWords [(''a'', Num 2), (''b'', Num 1)] (- 1) = Returns [\<lparr>word = ''a'', count = Num 2\<rparr>]
   \<and> getTopWords [(''a'', Num 2), (''b'', Num 1)] (- 1) = [\<lparr>word = ''a'', count = Num 2\<rparr>]"
  using no_argument_check [of "[(''a'', Num 2), (''b'', Num 1)]" "- 1" "[]"]
  by (simp add: js_sort_def entries_def comes_before_def compareFn_def slice_from_start_def)

subsection \<open>Empty and missing text\<close>

text \<open>
  C6: for every text, missing or not, the call of \<^verbatim>\<open>analyzeText\<close> returns (it never
  raises), and on a missing text and on the empty string the result is the zero one:
  no words, no unique words, an empty frequency table and no top words.
\<close>

theorem analyzeText_never_raises:
  "(\<exists>r. call_analyzeText text_arg = Returns r)
   \<and> analyzeText None = \<lparr>totalWords = 0, uniqueWords = 0, frequency = [], topWords = []\<rparr>
   \<and> analyzeText (Some []) = \<lparr>totalWords = 0, uniqueWords = 0, frequency = [], topWords = []\<rparr>"
  by (simp add: call_analyzeText_def analyzeText_def extractWords_def cleanText_def
      countWordFrequency_def getTopWords_def entries_def js_sort_def slice_from_start_def)

subsection \<open>The scenario of the specification\<close>

text \<open>
  C8: on the text \<^verbatim>\<open>The Quick, quick fox jumps! The fox runs.\<close> the normalised text is
  \<^verbatim>\<open>the quick quick fox jumps the fox runs\<close>, the words are quick, quick, fox, jumps,
  fox, runs, their frequency table is quick 2, fox 2, jumps 1, runs 1 in that order,
  and the top two of that table are quick and then fox, both with count 2.
\<close>

theorem scenario_quick_fox:
  "cleanText (Some ''The Quick, quick fox jumps! The fox runs.'')
     = ''the quick quick fox jumps the fox runs''
   \<and> extractWords (Some ''The Quick, quick fox jumps! The fox runs.'')
     = [''quick'', ''quick'', ''fox'', ''jumps'', ''fox'', ''runs'']
   \<and> countWordFrequency [''quick'', ''quick'', ''fox'', ''jumps'', ''fox'', ''runs'']
     = [(''quick'', Num 2), (''fox'', Num 2), (''jumps'', Num 1), (''runs'', Num 1)]
   \<and> getTopWords [(''quick'', Num 2), (''fox'', Num 2), (''jumps'', Num 1), (''runs'', Num 1)] 2
     = [\<lparr>word = ''quick'', count = Num 2\<rparr>, \<lparr>word = ''fox'', count = Num 2\<rparr>]"
  by code_simp

subsection \<open>The batch\<close>

lemma foldl_analyze_article:
  "foldl analyze_article (acc, fs) docs
     = (acc @ map attach_analysis docs,
        fs @ map (\<lambda>d. frequency (analyzeText (Some (text_or_empty d)))) docs)"
  by (induction docs arbitrary: acc fs)
     (simp_all add: analyze_article_def attach_analysis_def Let_def)

lemma analyzeMultipleArticles_eq:
  "analyzeMultipleArticles docs n =
     \<lparr>articles = map attach_analysis docs,
      combinedFrequency =
        combineFrequencies (map (\<lambda>d. frequency (analyzeText (Some (text_or_empty d)))) docs),
      topWords = getTopWords
        (combineFrequencies (map (\<lambda>d. frequency (analyzeText (Some (text_or_empty d)))) docs)) n,
      totalArticles = length docs\<rparr>"
  by (simp add: analyzeMultipleArticles_def foldl_analyze_article Let_def)

lemma combineFrequencies_skip_empty:
  "combineFrequencies (fs @ [] # gs) = combineFrequencies (fs @ gs)"
  by (simp add: combineFrequencies_def)

lemma analyzeText_no_text:
  "text d = None \<or> text d = Some [] \<Longrightarrow>
     analyzeText (Some (text_or_empty d))
       = \<lparr>totalWords = 0, uniqueWords = 0, frequency = [], topWords = []\<rparr>"
  by (auto simp: text_or_empty_def analyzeText_def extractWords_def cleanText_def
      countWordFrequency_def getTopWords_def entries_def js_sort_def slice_from_start_def)

text \<open>
  C3: for every sequence of documents and every count, \<^verbatim>\<open>analyzeMultipleArticles\<close>
  analyses every document (the result lists as many articles as were given, each with
  the analysis of its own text) and \<^verbatim>\<open>totalArticles\<close> is the length of the input. A
  document whose text is missing or empty, wherever it stands in the batch, gets the
  zero analysis and changes neither the combined table nor the top words: they are
  those of the other documents. The empty batch gives no articles, an empty combined
  table and no top words.
\<close>

theorem batch_tolerates_empty_documents:
  "totalArticles (analyzeMultipleArticles docs n) = length docs
   \<and> length (articles (analyzeMultipleArticles docs n)) = length docs
   \<and> map analysis (articles (analyzeMultipleArticles docs n))
       = map (\<lambda>d. Some (analyzeText (Some (text_or_empty d)))) docs
   \<and> (text d = None \<or> text d = Some [] \<longrightarrow>
        analysis (articles (analyzeMultipleArticles (before @ d # after) n) ! length before)
          = Some \<lparr>totalWords = 0, uniqueWords = 0, frequency = [], topWords = []\<rparr>
        \<and> totalArticles (analyzeMultipleArticles (before @ d # after) n)
          = length before + 1 + length after
        \<and> combinedFrequency (analyzeMultipleArticles (before @ d # after) n)
          = combinedFrequency (analyzeMultipleArticles (before @ after) n)
        \<and> BatchAnalysisResult.topWords (analyzeMultipleArticles (before @ d # after) n)
          = BatchAnalysisResult.topWords (analyzeMultipleArticles (before @ after) n))
   \<and> analyzeMultipleArticles [] n
       = \<lparr>articles = [], combinedFrequency = [], topWords = [], totalArticles = 0\<rparr>"
proof -
  have empty: "analyzeMultipleArticles [] n
       = \<lparr>articles = [], combinedFrequency = [], topWords = [], totalArticles = 0\<rparr>"
    by (simp add: analyzeMultipleArticles_eq combineFrequencies_def getTopWords_def entries_def
        js_sort_def slice_from_start_def)
  have att: "map analysis (map attach_analysis docs)
       = map (\<lambda>d. Some (analyzeText (Some (text_or_empty d)))) docs"
    by (simp add: attach_analysis_def)
  have nth: "map attach_analysis (before @ d # after) ! length before = attach_analysis d"
    by (simp add: nth_append)
  show ?thesis
    using empty att nth
    by (auto simp: analyzeMultipleArticles_eq analyzeText_no_text combineFrequencies_skip_empty
        attach_analysis_def)
qed

theorem batch_tolerates_empty_documents_witness:
  "text (failed_article 1 ''u2'' ''timeout'') = Some []
   \<and> totalArticles (analyzeMultipleArticles
        [extracted_article 0 ''One'' ''u1'' ''red fox, red hen'' ''Ann'' ''May'',
         failed_article 1 ''u2'' ''timeout'',
         extracted_article 2 ''Three'' ''u3'' ''the hen and the red fox'' ''Bob'' ''June''] 5) = 3
   \<and> BatchAnalysisResult.topWords (analyzeMultipleArticles
        [extracted_article 0 ''One'' ''u1'' ''red fox, red hen'' ''Ann'' ''May'',
         failed_article 1 ''u2'' ''timeout'',
         extracted_article 2 ''Three'' ''u3'' ''the hen and the red fox'' ''Bob'' ''June''] 5)
      = [\<lparr>word = ''red'', count = Num 3\<rparr>, \<lparr>word = ''fox'', count = Num 2\<rparr>,
         \<lparr>word = ''hen'', count = Num 2\<rparr>]"
proof -
  let ?a = "extracted_article 0 ''One'' ''u1'' ''red fox, red hen'' ''Ann'' ''May''"
  let ?b = "failed_article 1 ''u2'' ''timeout''"
  let ?c = "extracted_article 2 ''Three'' ''u3'' ''the hen and the red fox'' ''Bob'' ''June''"
  have t: "text ?b = Some []"
    by (simp add: failed_article_def)
  have two: "BatchAnalysisResult.topWords (analyzeMultipleArticles ([?a] @ [?c]) 5)
      = [\<lparr>word = ''red'', count = Num 3\<rparr>, \<lparr>word = ''fox'', count = Num 2\<rparr>,
         \<lparr>word = ''hen'', count = Num 2\<rparr>]"
    by code_simp
  note batch = batch_tolerates_empty_documents [of "[?a, ?b, ?c]" 5 ?b "[?a]" "[?c]"]
  have three: "totalArticles (analyzeMultipleArticles [?a, ?b, ?c] 5) = 3"
    using batch by simp
  have same: "BatchAnalysisResult.topWords (analyzeMultipleArticles ([?a] @ ?b # [?c]) 5)
      = BatchAnalysisResult.topWords (analyzeMultipleArticles ([?a] @ [?c]) 5)"
    using batch t by blast
  from t three same two show ?thesis
    by simp
qed

subsection \<open>The word filter\<close>

lemma split_spaces_unfold:
  "split_spaces s =
     (if dropWhile (\<lambda>c. \<not> is_space_char c) s = [] then [takeWhile (\<lambda>c. \<not> is_space_char c) s]
      else takeWhile (\<lambda>c. \<not> is_space_char c) s
           # split_spaces (dropWhile is_space_char (dropWhile (\<lambda>c. \<not> is_space_char c) s)))"
  by (subst split_spaces.simps) (simp add: Let_def)

lemma split_spaces_no_space:
  "w \<in> set (split_spaces s) \<Longrightarrow> c \<in> set w \<Longrightarrow> \<not> is_space_char c"
proof (induction s rule: split_spaces.induct)
  case (1 s)
  let ?rest = "dropWhile (\<lambda>c. \<not> is_space_char c) s"
  from "1.prems"(1) have "w = takeWhile (\<lambda>c. \<not> is_space_char c) s
      \<or> (?rest \<noteq> [] \<and> w \<in> set (split_spaces (dropWhile is_space_char ?rest)))"
    by (subst (asm) split_spaces_unfold) (simp split: if_splits)
  then show ?case
  proof
    assume "w = takeWhile (\<lambda>c. \<not> is_space_char c) s"
    with "1.prems" show ?thesis by (auto dest: set_takeWhileD)
  next
    assume "?rest \<noteq> [] \<and> w \<in> set (split_spaces (dropWhile is_space_char ?rest))"
    with "1.IH" [OF refl refl] "1.prems" show ?thesis by blast
  qed
qed

lemma trim_no_space:
  assumes "\<forall>c\<in>set w. \<not> is_space_char c"
  shows "trim w = w"
proof -
  from assms have leading: "dropWhile is_space_char w = w"
    by (cases w) auto
  from assms have trailing: "dropWhile is_space_char (rev w) = rev w"
    by (cases "rev w") (auto simp: rev_eq_Cons_iff)
  show ?thesis by (simp add: trim_def leading trailing)
qed

text \<open>
  C5: for every text, no word of the output of \<^verbatim>\<open>extractWords\<close> is shorter than 3
  characters, consists of digits only, or is a stop word; and a piece of the normalised
  text of exactly 3 characters that is neither a number nor a stop word is in the output.
\<close>

theorem extractWords_filters:
  "(\<forall>w \<in> set (extractWords text_arg). 3 \<le> length w \<and> \<not> is_pure_number w \<and> \<not> is_stop_word w)
   \<and> (w \<in> set (split_spaces (cleanText text_arg)) \<and> length w = 3
        \<and> \<not> is_pure_number w \<and> \<not> is_stop_word w
      \<longrightarrow> w \<in> set (extractWords text_arg))"
proof -
  have keep: "w \<in> set (extractWords text_arg)"
    if w: "w \<in> set (split_spaces (cleanText text_arg))" and len: "length w = 3"
      and num: "\<not> is_pure_number w" and stop: "\<not> is_stop_word w"
  proof -
    have "\<forall>c\<in>set w. \<not> is_space_char c"
      using w split_spaces_no_space by blast
    then have tr: "trim w = w" by (rule trim_no_space)
    have ne: "cleanText text_arg \<noteq> []"
    proof
      assume "cleanText text_arg = []"
      with w have "w = []" by (subst (asm) split_spaces_unfold) simp
      with len show False by simp
    qed
    have "w \<noteq> []" using len by auto
    then show ?thesis
      using w len num stop tr ne by (simp add: extractWords_def Let_def)
  qed
  have drop: "\<forall>w \<in> set (extractWords text_arg).
      3 \<le> length w \<and> \<not> is_pure_number w \<and> \<not> is_stop_word w"
    by (auto simp: extractWords_def Let_def)
  from keep drop show ?thesis by blast
qed

theorem extractWords_filters_witness:
  "extractWords (Some ''A fox, 123 or it: the end of 42!'') = [''fox'', ''end'']
   \<and> ''fox'' \<in> set (split_spaces (cleanText (Some ''A fox, 123 or it: the end of 42!'')))
   \<and> length ''fox'' = 3 \<and> \<not> is_pure_number ''fox'' \<and> \<not> is_stop_word ''fox''
   \<and> ''fox'' \<in> set (extractWords (Some ''A fox, 123 or it: the end of 42!''))"
proof -
  have a: "extractWords (Some ''A fox, 123 or it: the end of 42!'') = [''fox'', ''end'']"
    by code_simp
  have b: "split_spaces (cleanText (Some ''A fox, 123 or it: the end of 42!''))
     = [''a'', ''fox'', ''123'', ''or'', ''it'', ''the'', ''end'', ''of'', ''42'']"
    by code_simp
  have c: "\<not> is_pure_number ''fox''" "\<not> is_stop_word ''fox''"
    by code_simp+
  show ?thesis
    using extractWords_filters [of "Some ''A fox, 123 or it: the end of 42!''" "''fox''"] a b c
    by simp
qed

subsection \<open>The report\<close>

lemma or_default_cases:
  "or_default field fallback = (case field of Some (c # cs) \<Rightarrow> c # cs | _ \<Rightarrow> fallback)"
  by (simp add: or_default_def split: option.splits list.splits)

lemma words_or_zero_cases:
  "words_or_zero a = (case analysis a of Some r \<Rightarrow> totalWords r | None \<Rightarrow> 0)"
  by (simp add: words_or_zero_def split: option.splits)

lemma article_lines_entry:
  "article_lines content (i, a)
     = content @ (show_nat (i + 1) @ ''. ''
         @ (case title a of Some (c # cs) \<Rightarrow> c # cs | _ \<Rightarrow> ''Unknown Title'') @ ''\<newline>''
         @ ''   URL: '' @ (case url a of Some (c # cs) \<Rightarrow> c # cs | _ \<Rightarrow> ''Unknown URL'') @ ''\<newline>''
         @ ''   Words: '' @ show_nat (case analysis a of Some r \<Rightarrow> totalWords r | None \<Rightarrow> 0)
         @ ''\<newline>\<newline>'')"
  unfolding article_lines_def or_default_cases words_or_zero_cases by simp

lemma foldl_entries:
  assumes step: "\<And>content i a. step content (i, a) = content @ entry i a"
  shows "foldl step content (enumerate k xs)
     = content @ concat (map (\<lambda>i. entry (k + i) (xs ! i)) [0..<length xs])"
proof (induction xs arbitrary: content k)
  case Nil
  show ?case by simp
next
  case (Cons x xs)
  have r: "[0..<length (x # xs)] = 0 # map Suc [0..<length xs]"
    by (simp add: upt_conv_Cons map_Suc_upt del: upt_Suc)
  have m: "map (\<lambda>i. entry (k + i) ((x # xs) ! i)) [0..<length (x # xs)]
      = entry k x # map (\<lambda>i. entry (Suc k + i) (xs ! i)) [0..<length xs]"
    unfolding r by (simp add: comp_def del: upt_Suc)
  have "foldl step content (enumerate k (x # xs)) = foldl step (content @ entry k x) (enumerate (Suc k) xs)"
    by (simp add: step)
  also have "\<dots> = (content @ entry k x) @ concat (map (\<lambda>i. entry (Suc k + i) (xs ! i)) [0..<length xs])"
    by (rule Cons.IH)
  finally show ?case
    unfolding m by simp
qed

text \<open>
  C9: for every batch result, every sequence of top words and every time stamp, the
  report is the header, the line of the time stamp, the line with the number of
  articles, then one entry for each article of the batch, in order and none left out,
  then the heading of the ranking and one line for each of the given top words, in
  order, with its position, its word and its count, and the closing line. The entry of
  an article gives its position counted from 1; its title when it has one that is not
  empty, and \<^verbatim>\<open>Unknown Title\<close> when the title is missing or empty; its url when it has
  one that is not empty, and \<^verbatim>\<open>Unknown URL\<close> when the url is missing or empty; and the
  \<^verbatim>\<open>totalWords\<close> of its analysis when it has one, and 0 when it has none. The
  instance after the theorem is the report of three articles: one with title, url and
  analysis, one with none of them, and one with an empty title and an empty url.
\<close>

theorem report_layout:
  "generateFileContent now ranked batch =
     ''Word Frequency Analysis Results\<newline>''
     @ ''===============================\<newline>\<newline>''
     @ ''Analysis Date: '' @ now @ ''\<newline>''
     @ ''Articles Analyzed: '' @ show_nat (length (articles batch)) @ ''\<newline>\<newline>''
     @ ''Articles:\<newline>''
     @ concat (map (\<lambda>i.
         show_nat (i + 1) @ ''. ''
         @ (case title (articles batch ! i) of Some (c # cs) \<Rightarrow> c # cs | _ \<Rightarrow> ''Unknown Title'')
         @ ''\<newline>''
         @ ''   URL: ''
         @ (case url (articles batch ! i) of Some (c # cs) \<Rightarrow> c # cs | _ \<Rightarrow> ''Unknown URL'')
         @ ''\<newline>''
         @ ''   Words: ''
         @ show_nat (case analysis (articles batch ! i) of Some r \<Rightarrow> totalWords r | None \<Rightarrow> 0)
         @ ''\<newline>\<newline>'') [0..<length (articles batch)])
     @ ''Top 5 Most Repeated Words Across All Articles:\<newline>''
     @ ''==============================================\<newline>''
     @ concat (map (\<lambda>i.
         show_nat (i + 1) @ ''. '' @ [CHR 0x22] @ word (ranked ! i) @ [CHR 0x22] @ '' - ''
         @ to_string (count (ranked ! i)) @ '' occurrences\<newline>'') [0..<length ranked])
     @ ''\<newline>\<newline>Generated by Haci Arpaci\<newline>''"
proof -
  have w: "word_line content (i, r)
      = content @ (show_nat (i + 1) @ ''. '' @ [CHR 0x22] @ word r @ [CHR 0x22] @ '' - ''
         @ to_string (count r) @ '' occurrences\<newline>'')" for content i r
    by (simp add: word_line_def)
  note a = foldl_entries [of article_lines, OF article_lines_entry, of _ 0]
  note b = foldl_entries [of word_line, OF w, of _ 0]
  show ?thesis
    unfolding generateFileContent_def Let_def a b
    by simp
qed

theorem report_layout_witness:
  "generateFileContent ''2024-01-01T00:00:00.000Z''
     [\<lparr>word = ''red'', count = Num 3\<rparr>, \<lparr>word = ''fox'', count = Num 2\<rparr>]
     \<lparr>articles =
        [\<lparr>title = Some ''One'', url = Some ''u1'', text = Some ''red fox'', author = None,
          date = None, index = Some 1, error = None,
          analysis = Some \<lparr>totalWords = 12, uniqueWords = 2, frequency = [], topWords = []\<rparr>\<rparr>,
         \<lparr>title = None, url = None, text = None, author = None,
          date = None, index = None, error = None, analysis = None\<rparr>,
         \<lparr>title = Some [], url = Some [], text = Some [], author = None,
          date = None, index = Some 3, error = Some ''timeout'',
          analysis = Some \<lparr>totalWords = 0, uniqueWords = 0, frequency = [], topWords = []\<rparr>\<rparr>],
      combinedFrequency = [], topWords = [], totalArticles = 3\<rparr>
   = ''Word Frequency Analysis Results\<newline>''
     @ ''===============================\<newline>\<newline>''
     @ ''Analysis Date: 2024-01-01T00:00:00.000Z\<newline>''
     @ ''Articles Analyzed: 3\<newline>\<newline>''
     @ ''Articles:\<newline>''
     @ ''1. One\<newline>   URL: u1\<newline>   Words: 12\<newline>\<newline>''
     @ ''2. Unknown Title\<newline>   URL: Unknown URL\<newline>   Words: 0\<newline>\<newline>''
     @ ''3. Unknown Title\<newline>   URL: Unknown URL\<newline>   Words: 0\<newline>\<newline>''
     @ ''Top 5 Most Repeated Words Across All Articles:\<newline>''
     @ ''==============================================\<newline>''
     @ ''1. '' @ [CHR 0x22] @ ''red'' @ [CHR 0x22] @ '' - 3 occurrences\<newline>''
     @ ''2. '' @ [CHR 0x22] @ ''fox'' @ [CHR 0x22] @ '' - 2 occurrences\<newline>''
     @ ''\<newline>\<newline>Generated by Haci Arpaci\<newline>''"
  unfolding report_layout by code_simp

subsection \<open>The normaliser\<close>

lemma space_is_space: "is_space_char (CHR '' '')"
  by (simp add: is_space_char_def)

lemma space_not_upper: "\<not> is_upper_char (CHR '' '')"
  by (simp add: is_upper_char_def)

lemma lower_char_not_upper: "\<not> is_upper_char (lower_char c)"
proof (cases "is_upper_char c")
  case True
  then have "(of_char c :: nat) \<le> 222" by (auto simp: is_upper_char_def Let_def)
  then have "(of_char (char_of ((of_char c :: nat) + 32)) :: nat) = of_char c + 32"
    by simp
  with True show ?thesis
    by (auto simp: lower_char_def is_upper_char_def Let_def)
next
  case False
  then show ?thesis by (simp add: lower_char_def)
qed

lemma lower_char_fixed: "\<not> is_upper_char c \<Longrightarrow> lower_char c = c"
  by (simp add: lower_char_def)

lemma replace_spaces_Nil_iff: "replace_spaces s = [] \<longleftrightarrow> s = []"
  by (cases s) auto

lemma hd_replace_spaces: "s \<noteq> [] \<Longrightarrow> is_space_char (hd (replace_spaces s)) \<longleftrightarrow> is_space_char (hd s)"
  by (cases s) (auto simp: space_is_space)

lemma set_replace_spaces:
  "c \<in> set (replace_spaces s) \<Longrightarrow> c = CHR '' '' \<or> (c \<in> set s \<and> \<not> is_space_char c)"
proof (induction s rule: replace_spaces.induct)
  case 1
  then show ?case by simp
next
  case (2 d ds)
  then show ?case
    by (auto split: if_splits dest: set_dropWhileD)
qed

lemma successively_replace_spaces:
  "successively (\<lambda>a b. \<not> (is_space_char a \<and> is_space_char b)) (replace_spaces s)"
proof (induction s rule: replace_spaces.induct)
  case 1
  then show ?case by simp
next
  case (2 d ds)
  show ?case
  proof (cases "is_space_char d")
    case True
    let ?r = "dropWhile is_space_char ds"
    have "?r = [] \<or> \<not> is_space_char (hd ?r)"
      by (metis hd_dropWhile)
    then have "replace_spaces ?r = [] \<or> \<not> is_space_char (hd (replace_spaces ?r))"
      by (metis hd_replace_spaces replace_spaces_Nil_iff)
    with True 2 show ?thesis
      by (cases "replace_spaces ?r") (auto simp: successively_Cons)
  next
    case False
    with 2 show ?thesis
      by (cases "replace_spaces ds") (auto simp: successively_Cons)
  qed
qed

lemma replace_spaces_fixed:
  "\<forall>c \<in> set s. is_space_char c \<longrightarrow> c = CHR '' '' \<Longrightarrow>
   successively (\<lambda>a b. \<not> (is_space_char a \<and> is_space_char b)) s \<Longrightarrow> replace_spaces s = s"
proof (induction s rule: replace_spaces.induct)
  case 1
  then show ?case by simp
next
  case (2 d ds)
  show ?case
  proof (cases "is_space_char d")
    case True
    with "2.prems" have "ds = [] \<or> \<not> is_space_char (hd ds)"
      by (cases ds) (auto simp: successively_Cons)
    then have dw: "dropWhile is_space_char ds = ds"
      by (cases ds) auto
    have "successively (\<lambda>a b. \<not> (is_space_char a \<and> is_space_char b)) ds"
      using "2.prems"(2) by (cases ds) (auto simp: successively_Cons)
    with 2 True dw show ?thesis by auto
  next
    case False
    have "successively (\<lambda>a b. \<not> (is_space_char a \<and> is_space_char b)) ds"
      using "2.prems"(2) by (cases ds) (auto simp: successively_Cons)
    with 2 False show ?thesis by auto
  qed
qed

lemma trim_parts: "\<exists>xs ys. s = xs @ trim s @ ys"
proof -
  have 1: "s = takeWhile is_space_char s @ dropWhile is_space_char s" by simp
  let ?m = "dropWhile is_space_char s"
  have "rev ?m = takeWhile is_space_char (rev ?m) @ dropWhile is_space_char (rev ?m)" by simp
  then have "?m = rev (dropWhile is_space_char (rev ?m)) @ rev (takeWhile is_space_char (rev ?m))"
    by (metis rev_append rev_rev_ident)
  then have "?m = trim s @ rev (takeWhile is_space_char (rev ?m))"
    by (simp add: trim_def)
  with 1 show ?thesis by metis
qed

lemma trim_trim: "trim (trim s) = trim s"
proof -
  define m where "m = dropWhile is_space_char s"
  define t where "t = rev (dropWhile is_space_char (rev m))"
  have ts: "trim s = t" by (simp add: trim_def t_def m_def)
  have m_hd: "m = [] \<or> \<not> is_space_char (hd m)"
    unfolding m_def by (metis hd_dropWhile)
  have m_split: "m = t @ rev (takeWhile is_space_char (rev m))"
    unfolding t_def by (metis rev_append rev_rev_ident takeWhile_dropWhile_id)
  have "t = [] \<or> \<not> is_space_char (hd t)"
  proof (cases "t = []")
    case True
    then show ?thesis by simp
  next
    case False
    with m_split have "hd t = hd m" "m \<noteq> []"
      by (metis hd_append2, metis append_is_Nil_conv)
    with m_hd show ?thesis by simp
  qed
  then have start: "dropWhile is_space_char t = t"
    by (cases t) auto
  have "rev (dropWhile is_space_char (rev t)) = t"
    unfolding t_def by simp
  with start show ?thesis
    unfolding ts by (simp add: trim_def)
qed

text \<open>
  C7: the normaliser \<^verbatim>\<open>cleanText\<close> is idempotent: for every text, missing or not,
  normalising the normalised text gives the normalised text again.
\<close>

theorem cleanText_idempotent: "cleanText (Some (cleanText text_arg)) = cleanText text_arg"
proof (cases "text_arg = None \<or> text_arg = Some []")
  case True
  then show ?thesis by (auto simp: cleanText_def)
next
  case False
  then obtain t where t: "text_arg = Some t" "t \<noteq> []" by auto
  define z where "z = replace_punctuation (toLowerCase t)"
  define y where "y = trim (replace_spaces z)"
  have clean: "cleanText text_arg = y"
    using t by (simp add: cleanText_def y_def z_def)
  obtain xs ys where parts: "replace_spaces z = xs @ y @ ys"
    unfolding y_def using trim_parts by blast
  have zc: "(is_word_char c \<and> \<not> is_upper_char c) \<or> is_space_char c" if "c \<in> set z" for c
    using that unfolding z_def
    by (auto simp: replace_punctuation_def toLowerCase_def lower_char_not_upper space_is_space
        split: if_splits)
  have rc: "(is_word_char c \<and> \<not> is_upper_char c \<and> \<not> is_space_char c) \<or> c = CHR '' ''"
    if "c \<in> set (replace_spaces z)" for c
    using set_replace_spaces [OF that] zc by blast
  have yc: "(is_word_char c \<and> \<not> is_upper_char c \<and> \<not> is_space_char c) \<or> c = CHR '' ''"
    if "c \<in> set y" for c
    using that rc parts by (metis Un_iff set_append)
  have "lower_char c = c" if "c \<in> set y" for c
    using yc [OF that] space_not_upper lower_char_fixed by blast
  then have low: "toLowerCase y = y"
    unfolding toLowerCase_def by (simp add: map_idI)
  have "(if is_word_char c \<or> is_space_char c then c else CHR '' '') = c" if "c \<in> set y" for c
    using yc [OF that] space_is_space by auto
  then have punct: "replace_punctuation y = y"
    unfolding replace_punctuation_def by (simp add: map_idI)
  have "successively (\<lambda>a b. \<not> (is_space_char a \<and> is_space_char b)) (xs @ y @ ys)"
    using successively_replace_spaces [of z] parts by simp
  then have "successively (\<lambda>a b. \<not> (is_space_char a \<and> is_space_char b)) y"
    by (simp add: successively_append_iff)
  moreover have "\<forall>c \<in> set y. is_space_char c \<longrightarrow> c = CHR '' ''"
    using yc by blast
  ultimately have spaces: "replace_spaces y = y"
    using replace_spaces_fixed by blast
  have "trim y = y"
    unfolding y_def by (rule trim_trim)
  then have "cleanText (Some y) = y"
    by (simp add: cleanText_def low punct spaces)
  with clean show ?thesis by simp
qed

subsection \<open>Plain objects as tables\<close>

lemma prototype_text_proto: "prototype_text k = None \<Longrightarrow> k \<noteq> ''__proto__''"
  by (auto simp: prototype_text_def)

lemma set_insert_index: "set (insert_index k v obj) = insert (k, v) (set obj)"
  by (induction k v obj rule: insert_index.induct) auto

lemma keys_insert_index: "fst ` set (insert_index k v obj) = insert k (fst ` set obj)"
  by (simp add: set_insert_index)

lemma distinct_insert_index:
  "k \<notin> fst ` set obj \<Longrightarrow> distinct (map fst obj) \<Longrightarrow> distinct (map fst (insert_index k v obj))"
  by (induction k v obj rule: insert_index.induct) (auto simp: keys_insert_index)

lemma map_of_insert_index:
  "k \<notin> fst ` set obj \<Longrightarrow> map_of (insert_index k v obj) = (map_of obj)(k \<mapsto> v)"
  by (induction k v obj rule: insert_index.induct) (auto simp: fun_upd_twist)

lemma map_of_set_property:
  assumes "prototype_text k = None"
  shows "map_of (set_property obj k v) = (map_of obj)(k \<mapsto> v)"
proof (cases "k \<in> fst ` set obj")
  case True
  then show ?thesis by (simp add: set_property_def update_conv')
next
  case False
  then have "map_of obj k = None" by (simp add: map_of_eq_None_iff)
  then have "map_of (obj @ [(k, v)]) = (map_of obj)(k \<mapsto> v)"
    by (auto simp: map_add_def fun_eq_iff split: option.splits)
  with False assms show ?thesis
    by (simp add: set_property_def map_of_insert_index prototype_text_proto)
qed

lemma distinct_set_property:
  "distinct (map fst obj) \<Longrightarrow> distinct (map fst (set_property obj k v))"
  by (auto simp: set_property_def distinct_update distinct_insert_index)

lemma keys_set_property:
  "prototype_text k = None \<Longrightarrow> fst ` set (set_property obj k v) = insert k (fst ` set obj)"
  by (metis dom_fun_upd dom_map_of_conv_image_fst map_of_set_property option.distinct(1))


subsection \<open>Counting in a table of numbers\<close>

lemma get_or_zero_numeric:
  assumes "numeric obj" and "prototype_text k = None"
  shows "get_or_zero obj k = Num (count_in obj k)"
proof (cases "map_of obj k")
  case None
  with assms show ?thesis by (simp add: get_or_zero_def count_in_def)
next
  case (Some v)
  then have "(k, v) \<in> set obj" by (rule map_of_SomeD)
  with assms(1) obtain i where "v = Num i" using numeric_value by blast
  with Some show ?thesis by (simp add: get_or_zero_def count_in_def)
qed

lemma set_set_property: "set (set_property obj k v) \<subseteq> insert (k, v) (set obj)"
proof (cases "k \<in> fst ` set obj")
  case True
  have "set (AList.update k v obj) \<subseteq> insert (k, v) (set obj)"
    by (induction obj) auto
  with True show ?thesis by (simp add: set_property_def)
next
  case False
  then show ?thesis by (auto simp: set_property_def set_insert_index)
qed

lemma numeric_set_property: "numeric obj \<Longrightarrow> numeric (set_property obj k (Num i))"
proof (rule numericI)
  fix a v
  assume n: "numeric obj" and "(a, v) \<in> set (set_property obj k (Num i))"
  then have "(a, v) = (k, Num i) \<or> (a, v) \<in> set obj"
    using set_set_property by blast
  with n show "\<exists>j. v = Num j" using numeric_value by blast
qed

lemma count_in_set_property:
  "prototype_text k = None \<Longrightarrow>
     count_in (set_property obj k (Num i)) x = (if x = k then i else count_in obj x)"
  by (simp add: count_in_def map_of_set_property)

lemma total_count_update:
  "distinct (map fst obj) \<Longrightarrow> k \<in> fst ` set obj \<Longrightarrow>
     total_count (AList.update k (Num i) obj) = total_count obj - count_in obj k + i"
proof (induction obj)
  case Nil
  then show ?case by simp
next
  case (Cons e obj)
  obtain a v where e: "e = (a, v)" by (cases e)
  show ?case
  proof (cases "a = k")
    case True
    then show ?thesis
      using e by (cases v) (simp_all add: total_count_def count_in_def)
  next
    case False
    with Cons e have "total_count (AList.update k (Num i) obj) = total_count obj - count_in obj k + i"
      by auto
    with False e show ?thesis
      by (simp add: total_count_def count_in_def)
  qed
qed

lemma total_count_insert_index:
  "total_count (insert_index k (Num i) obj) = total_count obj + i"
  by (induction k "Num i" obj rule: insert_index.induct) (auto simp: total_count_def)

lemma count_in_absent: "k \<notin> fst ` set obj \<Longrightarrow> count_in obj k = 0"
  by (simp add: count_in_def map_of_eq_None_iff [THEN iffD2])

lemma total_count_set_property:
  assumes "distinct (map fst obj)" and "prototype_text k = None"
  shows "total_count (set_property obj k (Num i)) = total_count obj - count_in obj k + i"
proof (cases "k \<in> fst ` set obj")
  case True
  with assms show ?thesis by (simp add: set_property_def total_count_update)
next
  case False
  with assms show ?thesis
    by (simp add: set_property_def total_count_insert_index count_in_absent prototype_text_proto)
       (simp add: total_count_def)
qed

text \<open>One step of \<^verbatim>\<open>countWordFrequency\<close> and of \<^verbatim>\<open>combineFrequencies\<close> on a table of
  numbers, for a word that names no member of \<^verbatim>\<open>Object.prototype\<close>: the word's count
  grows by the number added.\<close>

lemma add_step:
  fixes i :: int
  assumes "numeric obj" and "distinct (map fst obj)" and "prototype_text k = None"
  defines "obj' \<equiv> set_property obj k (js_plus (get_or_zero obj k) (Num i))"
  shows "numeric obj'" and "distinct (map fst obj')"
    and "fst ` set obj' = insert k (fst ` set obj)"
    and "count_in obj' x = count_in obj x + (if x = k then i else 0)"
    and "total_count obj' = total_count obj + i"
proof -
  have eq: "obj' = set_property obj k (Num (count_in obj k + i))"
    using assms(1,3) by (simp add: obj'_def get_or_zero_numeric)
  show "numeric obj'" unfolding eq using assms(1) by (rule numeric_set_property)
  show "distinct (map fst obj')" unfolding eq using assms(2) by (rule distinct_set_property)
  show "fst ` set obj' = insert k (fst ` set obj)"
    unfolding eq using assms(3) by (rule keys_set_property)
  show "count_in obj' x = count_in obj x + (if x = k then i else 0)"
    unfolding eq using assms(3) by (simp add: count_in_set_property)
  show "total_count obj' = total_count obj + i"
    unfolding eq using assms(2,3) by (simp add: total_count_set_property)
qed

lemma count_words_from:
  assumes "numeric obj" and "distinct (map fst obj)" and "\<forall>w \<in> set ws. prototype_text w = None"
  defines "step \<equiv> (\<lambda>freq w. set_property freq w (js_plus (get_or_zero freq w) (Num 1)))"
  shows "numeric (foldl step obj ws) \<and> distinct (map fst (foldl step obj ws))
     \<and> fst ` set (foldl step obj ws) = fst ` set obj \<union> set ws
     \<and> (\<forall>x. count_in (foldl step obj ws) x = count_in obj x + int (count_list ws x))
     \<and> total_count (foldl step obj ws) = total_count obj + int (length ws)"
  using assms(1,2,3)
proof (induction ws arbitrary: obj)
  case Nil
  then show ?case by simp
next
  case (Cons w ws)
  have p: "prototype_text w = None" using Cons.prems(3) by simp
  note s = add_step [OF Cons.prems(1,2) p, of 1]
  have "numeric (step obj w)" "distinct (map fst (step obj w))"
    unfolding step_def using s(1,2) by simp_all
  moreover have "\<forall>w \<in> set ws. prototype_text w = None" using Cons.prems(3) by simp
  ultimately have ih: "numeric (foldl step (step obj w) ws) \<and> distinct (map fst (foldl step (step obj w) ws))
     \<and> fst ` set (foldl step (step obj w) ws) = fst ` set (step obj w) \<union> set ws
     \<and> (\<forall>x. count_in (foldl step (step obj w) ws) x = count_in (step obj w) x + int (count_list ws x))
     \<and> total_count (foldl step (step obj w) ws) = total_count (step obj w) + int (length ws)"
    by (rule Cons.IH)
  have k: "fst ` set (step obj w) = insert w (fst ` set obj)"
    and c: "\<And>x. count_in (step obj w) x = count_in obj x + (if x = w then 1 else 0)"
    and t: "total_count (step obj w) = total_count obj + 1"
    unfolding step_def using s(3,4,5) by simp_all
  show ?case
    using ih by (auto simp: k c t)
qed


lemma countWordFrequency_counts:
  assumes "\<forall>w \<in> set ws. prototype_text w = None"
  shows "numeric (countWordFrequency ws) \<and> distinct (map fst (countWordFrequency ws))
     \<and> fst ` set (countWordFrequency ws) = set ws
     \<and> (\<forall>x. count_in (countWordFrequency ws) x = int (count_list ws x))
     \<and> total_count (countWordFrequency ws) = int (length ws)"
proof -
  have "numeric []" "distinct (map fst ([] :: table))"
    by (simp_all add: numeric_def)
  from count_words_from [OF this assms] show ?thesis
    by (simp add: countWordFrequency_def count_in_def total_count_def)
qed

lemma count_in_Cons:
  "count_in ((k, Num i) # freq) x = (if x = k then i else count_in freq x)"
  by (simp add: count_in_def)

lemma merge_table:
  assumes "numeric obj" and "distinct (map fst obj)"
    and "numeric freq" and "distinct (map fst freq)"
    and "\<forall>k \<in> fst ` set freq. prototype_text k = None"
  defines "step \<equiv> (\<lambda>combined (w, c). set_property combined w (js_plus (get_or_zero combined w) c))"
  shows "numeric (foldl step obj freq) \<and> distinct (map fst (foldl step obj freq))
     \<and> fst ` set (foldl step obj freq) = fst ` set obj \<union> fst ` set freq
     \<and> (\<forall>x. count_in (foldl step obj freq) x = count_in obj x + count_in freq x)"
  using assms(1-5)
proof (induction freq arbitrary: obj)
  case Nil
  then show ?case by (simp add: count_in_def)
next
  case (Cons e freq)
  obtain k v where e: "e = (k, v)" by (cases e)
  with Cons.prems(3) obtain i where "v = Num i"
    using numeric_value [of "e # freq" k v] by auto
  with e have e: "e = (k, Num i)" by simp
  have p: "prototype_text k = None" using Cons.prems(5) e by simp
  note s = add_step [OF Cons.prems(1,2) p, of i]
  have st: "step obj (k, Num i) = set_property obj k (js_plus (get_or_zero obj k) (Num i))"
    by (simp add: step_def)
  have "numeric freq"
    using Cons.prems(3) by (simp add: numeric_def)
  moreover have "distinct (map fst freq)" "\<forall>k \<in> fst ` set freq. prototype_text k = None"
    using Cons.prems(4,5) by simp_all
  ultimately have ih: "numeric (foldl step (step obj (k, Num i)) freq)
     \<and> distinct (map fst (foldl step (step obj (k, Num i)) freq))
     \<and> fst ` set (foldl step (step obj (k, Num i)) freq)
         = fst ` set (step obj (k, Num i)) \<union> fst ` set freq
     \<and> (\<forall>x. count_in (foldl step (step obj (k, Num i)) freq) x
              = count_in (step obj (k, Num i)) x + count_in freq x)"
    using s(1,2) unfolding st [symmetric] by (intro Cons.IH)
  have absent: "count_in freq k = 0"
    using Cons.prems(4) e by (intro count_in_absent) auto
  have k: "fst ` set (step obj (k, Num i)) = insert k (fst ` set obj)"
    and c: "\<And>x. count_in (step obj (k, Num i)) x = count_in obj x + (if x = k then i else 0)"
    unfolding st using s(3,4) by simp_all
  show ?case
    unfolding e using ih absent by (auto simp: k c count_in_Cons)
qed

lemma combine_from:
  assumes "numeric obj" and "distinct (map fst obj)"
    and "\<forall>freq \<in> set fs. numeric freq \<and> distinct (map fst freq)
           \<and> (\<forall>k \<in> fst ` set freq. prototype_text k = None)"
  defines "step \<equiv> (\<lambda>combined (w, c). set_property combined w (js_plus (get_or_zero combined w) c))"
  shows "numeric (foldl (foldl step) obj fs) \<and> distinct (map fst (foldl (foldl step) obj fs))
     \<and> fst ` set (foldl (foldl step) obj fs) = fst ` set obj \<union> (\<Union>freq \<in> set fs. fst ` set freq)
     \<and> (\<forall>x. count_in (foldl (foldl step) obj fs) x
              = count_in obj x + sum_list (map (\<lambda>freq. count_in freq x) fs))"
  using assms(1-3)
proof (induction fs arbitrary: obj)
  case Nil
  then show ?case by simp
next
  case (Cons freq fs)
  have f: "numeric freq" "distinct (map fst freq)" "\<forall>k \<in> fst ` set freq. prototype_text k = None"
    using Cons.prems(3) by simp_all
  note m = merge_table [OF Cons.prems(1,2) f, folded step_def]
  have rest: "\<forall>freq \<in> set fs. numeric freq \<and> distinct (map fst freq)
           \<and> (\<forall>k \<in> fst ` set freq. prototype_text k = None)"
    using Cons.prems(3) by simp
  have ih: "numeric (foldl (foldl step) (foldl step obj freq) fs)
     \<and> distinct (map fst (foldl (foldl step) (foldl step obj freq) fs))
     \<and> fst ` set (foldl (foldl step) (foldl step obj freq) fs)
         = fst ` set (foldl step obj freq) \<union> (\<Union>freq \<in> set fs. fst ` set freq)
     \<and> (\<forall>x. count_in (foldl (foldl step) (foldl step obj freq) fs) x
              = count_in (foldl step obj freq) x + sum_list (map (\<lambda>freq. count_in freq x) fs))"
    using m rest by (intro Cons.IH) simp_all
  show ?case
    using ih m by (auto simp: Un_assoc)
qed

lemma combineFrequencies_sums:
  assumes "\<forall>freq \<in> set fs. numeric freq \<and> distinct (map fst freq)
           \<and> (\<forall>k \<in> fst ` set freq. prototype_text k = None)"
  shows "numeric (combineFrequencies fs) \<and> distinct (map fst (combineFrequencies fs))
     \<and> fst ` set (combineFrequencies fs) = (\<Union>freq \<in> set fs. fst ` set freq)
     \<and> (\<forall>x. count_in (combineFrequencies fs) x = sum_list (map (\<lambda>freq. count_in freq x) fs))"
proof -
  have "numeric []" "distinct (map fst ([] :: table))"
    by (simp_all add: numeric_def)
  from combine_from [OF this assms] show ?thesis
    by (simp add: combineFrequencies_def count_in_def)
qed


subsection \<open>Counts that are strings\<close>

text \<open>Every string that \<^verbatim>\<open>countWordFrequency\<close> stores as a count, and every string that
  \<^verbatim>\<open>combineFrequencies\<close> makes of such tables, holds the text of a member of
  \<^verbatim>\<open>Object.prototype\<close> and with it an opening bracket: \<^term>\<open>to_number\<close> is right to
  convert it to \<^verbatim>\<open>NaN\<close>.\<close>

lemma native_function_text_bracket: "CHR ''['' \<in> set (native_function_text name)"
  by (simp add: native_function_text_def)

lemma prototype_text_cases:
  "prototype_text k = Some p \<Longrightarrow> p = ''[object Object]'' \<or> (\<exists>name. p = native_function_text name)"
  unfolding prototype_text_def by (metis option.distinct(1) option.inject)

lemma prototype_text_bracket:
  assumes "prototype_text k = Some p"
  shows "CHR ''['' \<in> set p"
proof -
  from assms have "p = ''[object Object]'' \<or> (\<exists>name. p = native_function_text name)"
    by (rule prototype_text_cases)
  then show ?thesis
  proof
    assume "p = ''[object Object]''"
    then show ?thesis by simp
  next
    assume "\<exists>name. p = native_function_text name"
    then show ?thesis using native_function_text_bracket by blast
  qed
qed


lemma get_or_zero_bracket:
  "list_all (\<lambda>e. not_a_numeral (snd e)) obj \<Longrightarrow> not_a_numeral (get_or_zero obj k)"
proof (cases "map_of obj k")
  case None
  then show ?thesis
    by (auto simp: get_or_zero_def not_a_numeral_def
        dest: prototype_text_bracket split: option.splits)
next
  case (Some v)
  assume "list_all (\<lambda>e. not_a_numeral (snd e)) obj"
  moreover from Some have "(k, v) \<in> set obj" by (rule map_of_SomeD)
  ultimately have "not_a_numeral v" by (auto simp: list_all_iff)
  with Some show ?thesis
    by (cases v) (auto simp: get_or_zero_def not_a_numeral_def)
qed

lemma number_bracket: "not_a_numeral (Num i)"
  by (simp add: not_a_numeral_def)

lemma js_plus_bracket: "not_a_numeral a \<Longrightarrow> not_a_numeral b \<Longrightarrow> not_a_numeral (js_plus a b)"
  by (cases a; cases b) (auto simp: not_a_numeral_def)

lemma set_property_bracket:
  "list_all (\<lambda>e. not_a_numeral (snd e)) obj \<Longrightarrow> not_a_numeral v \<Longrightarrow>
     list_all (\<lambda>e. not_a_numeral (snd e)) (set_property obj k v)"
  using set_set_property [of obj k v] by (auto simp: list_all_iff)

lemma countWordFrequency_bracket:
  "list_all (\<lambda>e. not_a_numeral (snd e)) (countWordFrequency ws)"
proof -
  have "list_all (\<lambda>e. not_a_numeral (snd e)) obj \<Longrightarrow>
      list_all (\<lambda>e. not_a_numeral (snd e))
        (foldl (\<lambda>freq w. set_property freq w (js_plus (get_or_zero freq w) (Num 1))) obj ws)"
    for obj
    by (induction ws arbitrary: obj)
       (simp_all add: set_property_bracket js_plus_bracket get_or_zero_bracket number_bracket)
  then show ?thesis by (simp add: countWordFrequency_def)
qed

lemma combineFrequencies_bracket:
  assumes "\<forall>freq \<in> set fs. list_all (\<lambda>e. not_a_numeral (snd e)) freq"
  shows "list_all (\<lambda>e. not_a_numeral (snd e)) (combineFrequencies fs)"
proof -
  let ?step = "\<lambda>combined (w, c). set_property combined w (js_plus (get_or_zero combined w) c)"
  have inner: "list_all (\<lambda>e. not_a_numeral (snd e)) (foldl ?step obj freq)"
    if "list_all (\<lambda>e. not_a_numeral (snd e)) obj" "list_all (\<lambda>e. not_a_numeral (snd e)) freq"
    for obj freq
    using that
    by (induction freq arbitrary: obj)
       (simp_all add: case_prod_beta set_property_bracket js_plus_bracket get_or_zero_bracket)
  have "list_all (\<lambda>e. not_a_numeral (snd e)) (foldl (foldl ?step) obj fs)"
    if "list_all (\<lambda>e. not_a_numeral (snd e)) obj" for obj
    using that assms by (induction fs arbitrary: obj) (simp_all add: inner)
  then show ?thesis by (simp add: combineFrequencies_def)
qed

subsection \<open>Words that name a member of \<^verbatim>\<open>Object.prototype\<close>\<close>

text \<open>
  C10 states that the result of \<^verbatim>\<open>analyzeText\<close> is consistent for every text:
  \<^verbatim>\<open>totalWords\<close> is the sum of the counts of the table, \<^verbatim>\<open>uniqueWords\<close> the number of
  its keys, and every count is at least 1. The code, evaluated on the texts
  \<^verbatim>\<open>__proto__\<close> and \<^verbatim>\<open>constructor\<close>: the read \<^verbatim>\<open>frequency[word]\<close> finds the inherited
  member, so the first word is counted in \<^verbatim>\<open>totalWords\<close> and never stored, and the count
  of the second is a string.
\<close>

theorem analyzeText_prototype_words:
  "analyzeText (Some ''__proto__'')
     = \<lparr>totalWords = 1, uniqueWords = 0, frequency = [], topWords = []\<rparr>
   \<and> analyzeText (Some ''constructor'')
     = \<lparr>totalWords = 1, uniqueWords = 1,
        frequency = [(''constructor'', Str ''function Object() { [native code] }1'')],
        topWords = [\<lparr>word = ''constructor'',
                     count = Str ''function Object() { [native code] }1''\<rparr>]\<rparr>"
  by code_simp

text \<open>
  C2 states that \<^verbatim>\<open>combinedFrequency\<close> maps each word to the sum of its counts in the
  documents' tables. The code, evaluated on the batch of one document with the text
  \<^verbatim>\<open>constructor\<close>: the document's table holds a string for the word, and the combined
  table holds another string, the text of the inherited member followed by the
  document's.
\<close>

theorem combinedFrequency_prototype_word:
  "map (\<lambda>a. map_option frequency (analysis a))
     (articles (analyzeMultipleArticles
        [extracted_article 0 ''One'' ''u1'' ''constructor'' ''Ann'' ''May''] 5))
     = [Some [(''constructor'', Str ''function Object() { [native code] }1'')]]
   \<and> combinedFrequency (analyzeMultipleArticles
        [extracted_article 0 ''One'' ''u1'' ''constructor'' ''Ann'' ''May''] 5)
     = [(''constructor'',
         Str ''function Object() { [native code] }function Object() { [native code] }1'')]"
  by code_simp

subsection \<open>Texts without such words\<close>

lemma length_getTopWords_default: "length (getTopWords freq 5) = min 5 (length freq)"
  by (simp add: getTopWords_def slice_from_start_def length_js_sort entries_def min_def)

lemma distinct_countWordFrequency: "distinct (map fst (countWordFrequency ws))"
proof -
  have "distinct (map fst obj) \<Longrightarrow>
      distinct (map fst (foldl (\<lambda>freq w. set_property freq w (js_plus (get_or_zero freq w) (Num 1))) obj ws))"
    for obj
    by (induction ws arbitrary: obj) (simp_all add: distinct_set_property)
  then show ?thesis by (simp add: countWordFrequency_def)
qed

text \<open>
  What holds of the result of \<^verbatim>\<open>analyzeText\<close> for every text: \<^verbatim>\<open>uniqueWords\<close> is the
  number of distinct keys of the table, and \<^verbatim>\<open>topWords\<close> has as many entries as the
  minimum of 5 and \<^verbatim>\<open>uniqueWords\<close>.
\<close>

theorem analyzeText_unique_and_top:
  "uniqueWords (analyzeText text_arg) = card (fst ` set (frequency (analyzeText text_arg)))
   \<and> length (AnalysisResult.topWords (analyzeText text_arg)) = min 5 (uniqueWords (analyzeText text_arg))"
proof -
  have "card (fst ` set (countWordFrequency ws)) = length (countWordFrequency ws)" for ws
    using distinct_countWordFrequency [of ws] by (metis distinct_card length_map set_map)
  then show ?thesis
    by (simp add: analyzeText_def Let_def length_getTopWords_default)
qed

text \<open>
  And for a text with no word that names a member of \<^verbatim>\<open>Object.prototype\<close>:
  \<^verbatim>\<open>totalWords\<close> is the sum of the counts of the table, every count is a number and at
  least 1, and the count of a word is the number of its occurrences among the words.
\<close>

theorem analyzeText_consistent:
  assumes "\<forall>w \<in> set (extractWords text_arg). prototype_text w = None"
  shows "int (totalWords (analyzeText text_arg)) = total_count (frequency (analyzeText text_arg))
   \<and> (\<forall>e \<in> set (frequency (analyzeText text_arg)). \<exists>i. snd e = Num i \<and> 1 \<le> i)
   \<and> (\<forall>w. count_in (frequency (analyzeText text_arg)) w = int (count_list (extractWords text_arg) w))"
proof -
  let ?ws = "extractWords text_arg"
  let ?f = "countWordFrequency ?ws"
  note c = countWordFrequency_counts [OF assms]
  have f: "frequency (analyzeText text_arg) = ?f" "totalWords (analyzeText text_arg) = length ?ws"
    by (simp_all add: analyzeText_def Let_def)
  have "\<exists>i. snd e = Num i \<and> 1 \<le> i" if e: "e \<in> set ?f" for e
  proof -
    obtain k v where kv: "e = (k, v)" by (cases e)
    with e c obtain i where i: "v = Num i" using numeric_value by blast
    from e kv c have "k \<in> set ?ws" by (metis fst_conv imageI)
    then have "count_list ?ws k \<noteq> 0" by (simp add: count_list_0_iff)
    then have "1 \<le> count_list ?ws k" by simp
    moreover have "map_of ?f k = Some v"
      using e kv c by (simp add: map_of_eq_Some_iff)
    then have "count_in ?f k = i" using i by (simp add: count_in_def)
    ultimately show ?thesis using c kv i by auto
  qed
  with c f show ?thesis by simp
qed

text \<open>
  For a batch with no such word in any document: the combined table has each word
  once, its words are those of the documents' tables, and it maps each of them to the
  sum, over the documents, of the count the document's table gives the word (0 when the
  table does not hold it).
\<close>

theorem combinedFrequency_sums:
  assumes "\<forall>d \<in> set docs. \<forall>w \<in> set (extractWords (Some (text_or_empty d))). prototype_text w = None"
  shows "distinct (map fst (combinedFrequency (analyzeMultipleArticles docs n)))
   \<and> fst ` set (combinedFrequency (analyzeMultipleArticles docs n))
       = (\<Union>d \<in> set docs. fst ` set (frequency (analyzeText (Some (text_or_empty d)))))
   \<and> (\<forall>w. \<exists>i. map_of (combinedFrequency (analyzeMultipleArticles docs n)) w
                  = (if w \<in> fst ` set (combinedFrequency (analyzeMultipleArticles docs n))
                     then Some (Num i) else None)
              \<and> i = sum_list (map (\<lambda>d. count_in (frequency (analyzeText (Some (text_or_empty d)))) w) docs))"
proof -
  let ?table = "\<lambda>d. frequency (analyzeText (Some (text_or_empty d)))"
  let ?c = "combineFrequencies (map ?table docs)"
  have tab: "?table d = countWordFrequency (extractWords (Some (text_or_empty d)))" for d
    by (simp add: analyzeText_def Let_def)
  have "\<forall>freq \<in> set (map ?table docs). numeric freq \<and> distinct (map fst freq)
           \<and> (\<forall>k \<in> fst ` set freq. prototype_text k = None)"
  proof
    fix freq
    assume "freq \<in> set (map ?table docs)"
    then obtain d where d: "d \<in> set docs" "freq = ?table d" by auto
    from assms d(1) have "\<forall>w \<in> set (extractWords (Some (text_or_empty d))). prototype_text w = None"
      by blast
    from countWordFrequency_counts [OF this] this d(2) tab
    show "numeric freq \<and> distinct (map fst freq) \<and> (\<forall>k \<in> fst ` set freq. prototype_text k = None)"
      by simp
  qed
  note s = combineFrequencies_sums [OF this]
  have comb: "combinedFrequency (analyzeMultipleArticles docs n) = ?c"
    by (simp add: analyzeMultipleArticles_eq)
  have "\<exists>i. map_of ?c w = (if w \<in> fst ` set ?c then Some (Num i) else None)
          \<and> i = sum_list (map (\<lambda>d. count_in (?table d) w) docs)" for w
  proof (cases "map_of ?c w")
    case None
    then show ?thesis by (simp add: map_of_eq_None_iff)
  next
    case (Some v)
    then have in_c: "(w, v) \<in> set ?c" by (rule map_of_SomeD)
    with s obtain i where i: "v = Num i" using numeric_value by blast
    from in_c have "w \<in> fst ` set ?c" by (metis fst_conv imageI)
    moreover have "count_in ?c w = i" using Some i by (simp add: count_in_def)
    moreover have "count_in ?c w = sum_list (map (\<lambda>d. count_in (?table d) w) docs)"
      using s by (simp add: comp_def)
    ultimately show ?thesis using Some i by auto
  qed
  then show ?thesis
    unfolding comb using s by simp
qed


end
